theory Spec2Isabelle
  imports Main "HOL-Library.List_Lexorder"
begin

section \<open>Python values, objects and the heap\<close>

text \<open>
  The class \<^verbatim>\<open>FrozenList\<close> of \<^verbatim>\<open>_frozenlist.pyx\<close> holds two fields: the flag
  \<^verbatim>\<open>_frozen\<close> and the list object \<^verbatim>\<open>_items\<close>. Instances and list objects have an
  identity, they are mutated in place and they may refer to one another, so both live in
  a heap and are named by their address. A new object takes the next free address.

  The items of a list are values: \<^verbatim>\<open>None\<close>, an integer, a plain list object or a
  \<^verbatim>\<open>FrozenList\<close> instance. A tuple is known as an argument of an operation only (the
  source of a constructor, the other side of a comparison).
\<close>

datatype val = PyNone | PyInt int | ListRef nat | FLRef nat

datatype pyobj = Val val | PyTuple "val list"

datatype error =
    RuntimeError string
  | IndexError
  | ValueError
  | TypeError
  | RecursionError

record frozenlist =
  frozen :: bool
  items :: nat

record heap =
  lists :: "val list list"
  objs :: "frozenlist list"

text \<open>The contents of \<^verbatim>\<open>self._items\<close>.\<close>

definition items_of :: "heap \<Rightarrow> nat \<Rightarrow> val list" where
  "items_of h self = lists h ! items (objs h ! self)"

text \<open>Writing the contents of the list object at address \<open>l\<close>.\<close>

definition store_list :: "heap \<Rightarrow> nat \<Rightarrow> val list \<Rightarrow> heap" where
  "store_list h l vs = h\<lparr>lists := (lists h)[l := vs]\<rparr>"

text \<open>A new list object holding \<open>vs\<close>; \<^verbatim>\<open>PyList_New(0)\<close> is the case \<open>vs = []\<close>.\<close>

definition PyList_New :: "heap \<Rightarrow> val list \<Rightarrow> nat \<times> heap" where
  "PyList_New h vs = (length (lists h), h\<lparr>lists := lists h @ [vs]\<rparr>)"

text \<open>
  The items an iterable yields when it is read from its start to its end: those of a
  tuple, of a list, of a \<^verbatim>\<open>FrozenList\<close> (through \<^verbatim>\<open>__iter__\<close>, which iterates over
  \<^verbatim>\<open>_items\<close>); \<^verbatim>\<open>None\<close> and integers are not iterable.
\<close>

definition elements :: "heap \<Rightarrow> pyobj \<Rightarrow> error + val list" where
  "elements h ob =
     (case ob of
        PyTuple vs \<Rightarrow> Inr vs
      | Val (ListRef l) \<Rightarrow> Inr (lists h ! l)
      | Val (FLRef x) \<Rightarrow> Inr (items_of h x)
      | Val _ \<Rightarrow> Inl TypeError)"

text \<open>\<^verbatim>\<open>PySequence_List(o)\<close>: always a new list object, with the items of \<open>o\<close>.\<close>

definition PySequence_List :: "heap \<Rightarrow> pyobj \<Rightarrow> error + nat \<times> heap" where
  "PySequence_List h ob =
     (case elements h ob of
        Inl e \<Rightarrow> Inl e
      | Inr vs \<Rightarrow> Inr (PyList_New h vs))"


section \<open>Comparison of values\<close>

datatype cmpop = Py_LT | Py_LE | Py_EQ | Py_NE | Py_GT | Py_GE

fun swapped :: "cmpop \<Rightarrow> cmpop" where
  "swapped Py_LT = Py_GT"
| "swapped Py_LE = Py_GE"
| "swapped Py_EQ = Py_EQ"
| "swapped Py_NE = Py_NE"
| "swapped Py_GT = Py_LT"
| "swapped Py_GE = Py_LE"

fun int_cmp :: "cmpop \<Rightarrow> int \<Rightarrow> int \<Rightarrow> bool" where
  "int_cmp Py_LT a b = (a < b)"
| "int_cmp Py_LE a b = (a \<le> b)"
| "int_cmp Py_EQ a b = (a = b)"
| "int_cmp Py_NE a b = (a \<noteq> b)"
| "int_cmp Py_GT a b = (a > b)"
| "int_cmp Py_GE a b = (a \<ge> b)"

text \<open>
  When neither operand implements the comparison: \<^verbatim>\<open>==\<close> and \<^verbatim>\<open>!=\<close> fall back on
  identity, an ordering raises \<^verbatim>\<open>TypeError\<close>.
\<close>

fun default_cmp :: "cmpop \<Rightarrow> bool \<Rightarrow> error + bool" where
  "default_cmp Py_EQ same = Inr same"
| "default_cmp Py_NE same = Inr (\<not> same)"
| "default_cmp _ same = Inl TypeError"

text \<open>
  \<^verbatim>\<open>PyObject_RichCompareBool(v, w, Py_EQ)\<close>: identical objects are equal without asking
  them; \<open>rc\<close> is the comparison of two objects.
\<close>

definition RichCompareBool_EQ ::
  "(cmpop \<Rightarrow> val \<Rightarrow> val \<Rightarrow> error + bool) \<Rightarrow> val \<Rightarrow> val \<Rightarrow> error + bool" where
  "RichCompareBool_EQ rc v w = (if v = w then Inr True else rc Py_EQ v w)"

text \<open>
  The comparison of two lists, as \<^verbatim>\<open>list_richcompare\<close> of CPython does it: lists of
  different lengths are unequal at once; otherwise the first pair of items that are not
  equal decides (by the operator asked for), and when one list ends first the lengths decide.
\<close>

fun first_difference ::
  "(cmpop \<Rightarrow> val \<Rightarrow> val \<Rightarrow> error + bool) \<Rightarrow> cmpop \<Rightarrow> val list \<Rightarrow> val list \<Rightarrow> error + bool" where
  "first_difference rc op (v # vs) (w # ws) =
     (case RichCompareBool_EQ rc v w of
        Inl e \<Rightarrow> Inl e
      | Inr True \<Rightarrow> first_difference rc op vs ws
      | Inr False \<Rightarrow>
          (if op = Py_EQ then Inr False
           else if op = Py_NE then Inr True
           else rc op v w))"
| "first_difference rc op vs ws = Inr (int_cmp op (int (length vs)) (int (length ws)))"

definition list_richcompare ::
  "(cmpop \<Rightarrow> val \<Rightarrow> val \<Rightarrow> error + bool) \<Rightarrow> cmpop \<Rightarrow> val list \<Rightarrow> val list \<Rightarrow> error + bool" where
  "list_richcompare rc op vs ws =
     (if length vs \<noteq> length ws \<and> (op = Py_EQ \<or> op = Py_NE) then Inr (op = Py_NE)
      else first_difference rc op vs ws)"

text \<open>
  \<^verbatim>\<open>list(self) op other\<close>, the body of every branch of \<^verbatim>\<open>__richcmp__\<close>, for the
  items \<open>xs\<close> of \<^verbatim>\<open>self\<close>. Against a list the two lists are compared. Against a
  \<^verbatim>\<open>FrozenList\<close> the list declines (\<^verbatim>\<open>NotImplemented\<close>) and Python asks the other side
  with the operator mirrored, which runs \<^verbatim>\<open>__richcmp__\<close> of \<^verbatim>\<open>other\<close>, and that
  compares two lists. Against anything else both sides decline.
\<close>

definition list_cmp ::
  "(cmpop \<Rightarrow> val \<Rightarrow> val \<Rightarrow> error + bool) \<Rightarrow> heap \<Rightarrow> cmpop \<Rightarrow> val list \<Rightarrow> pyobj \<Rightarrow> error + bool" where
  "list_cmp rc h op xs other =
     (case other of
        Val (ListRef m) \<Rightarrow> list_richcompare rc op xs (lists h ! m)
      | Val (FLRef y) \<Rightarrow> list_richcompare rc (swapped op) (items_of h y) xs
      | _ \<Rightarrow> default_cmp op False)"

text \<open>
  \<^verbatim>\<open>PyObject_RichCompare(v, w, op)\<close> on the values of the heap. Items are compared by
  their own comparison, which for a list or a \<^verbatim>\<open>FrozenList\<close> compares items in turn:
  the first argument bounds the depth of that recursion, as the interpreter's recursion
  limit does, and \<^verbatim>\<open>RecursionError\<close> is raised beyond it. A \<^verbatim>\<open>FrozenList\<close> on the left
  answers by \<^verbatim>\<open>__richcmp__\<close>; one on the right only is asked with the operator mirrored.
\<close>

primrec RichCompare :: "nat \<Rightarrow> heap \<Rightarrow> cmpop \<Rightarrow> val \<Rightarrow> val \<Rightarrow> error + bool" where
  "RichCompare 0 h op v w = Inl RecursionError"
| "RichCompare (Suc n) h op v w =
     (case v of
        FLRef x \<Rightarrow> list_cmp (RichCompare n h) h op (items_of h x) (Val w)
      | _ \<Rightarrow>
        (case w of
           FLRef y \<Rightarrow> list_cmp (RichCompare n h) h (swapped op) (items_of h y) (Val v)
         | _ \<Rightarrow>
           (case (v, w) of
              (PyInt a, PyInt b) \<Rightarrow> Inr (int_cmp op a b)
            | (ListRef l, ListRef m) \<Rightarrow>
                list_richcompare (RichCompare n h) op (lists h ! l) (lists h ! m)
            | _ \<Rightarrow> default_cmp op (v = w))))"


section \<open>The operations of the built-in list\<close>

text \<open>
  Each operation is a function of the contents of the list. An index below zero counts
  from the end.
\<close>

definition list_getitem :: "val list \<Rightarrow> int \<Rightarrow> error + val" where
  "list_getitem xs index =
     (let n = int (length xs); i = (if index < 0 then index + n else index)
      in if i < 0 \<or> n \<le> i then Inl IndexError else Inr (xs ! nat i))"

definition list_setitem :: "val list \<Rightarrow> int \<Rightarrow> val \<Rightarrow> error + val list" where
  "list_setitem xs index v =
     (let n = int (length xs); i = (if index < 0 then index + n else index)
      in if i < 0 \<or> n \<le> i then Inl IndexError else Inr (xs[nat i := v]))"

definition list_delitem :: "val list \<Rightarrow> int \<Rightarrow> error + val list" where
  "list_delitem xs index =
     (let n = int (length xs); i = (if index < 0 then index + n else index)
      in if i < 0 \<or> n \<le> i then Inl IndexError
         else Inr (take (nat i) xs @ drop (Suc (nat i)) xs))"

text \<open>
  A slice \<^verbatim>\<open>start:stop:step\<close>, each part optional. \<open>slice_indices\<close> follows
  \<^verbatim>\<open>PySlice_Unpack\<close> and \<^verbatim>\<open>PySlice_AdjustIndices\<close>: it gives the adjusted start, stop
  and step and the number of positions selected.
\<close>

record slice =
  start :: "int option"
  stop :: "int option"
  step :: "int option"

definition adjust :: "int \<Rightarrow> int \<Rightarrow> int \<Rightarrow> int" where
  "adjust n st i =
     (if i < 0 then (if i + n < 0 then (if st < 0 then - 1 else 0) else i + n)
      else if n \<le> i then (if st < 0 then n - 1 else n)
      else i)"

definition slice_indices :: "nat \<Rightarrow> slice \<Rightarrow> error + int \<times> int \<times> int \<times> nat" where
  "slice_indices len s =
     (let n = int len; st = (case step s of None \<Rightarrow> 1 | Some k \<Rightarrow> k)
      in if st = 0 then Inl ValueError
         else
           let lo = (case start s of
                       None \<Rightarrow> (if st < 0 then n - 1 else 0)
                     | Some i \<Rightarrow> adjust n st i);
               hi = (case stop s of
                       None \<Rightarrow> (if st < 0 then - 1 else n)
                     | Some i \<Rightarrow> adjust n st i);
               cnt = (if st < 0
                      then (if hi < lo then nat ((lo - hi - 1) div (- st) + 1) else 0)
                      else (if lo < hi then nat ((hi - lo - 1) div st + 1) else 0))
           in Inr (lo, hi, st, cnt))"

definition positions :: "int \<Rightarrow> int \<Rightarrow> nat \<Rightarrow> nat list" where
  "positions lo st cnt = map (\<lambda>k. nat (lo + int k * st)) [0..<cnt]"


text \<open>
  Assignment to a slice. With step 1 the stretch from start to stop is replaced by the
  new items, whatever their number; with another step the new items must be as many as
  the positions selected, and each takes one position.
\<close>

definition list_setslice :: "val list \<Rightarrow> slice \<Rightarrow> val list \<Rightarrow> error + val list" where
  "list_setslice xs s vs =
     (case slice_indices (length xs) s of
        Inl e \<Rightarrow> Inl e
      | Inr (lo, hi, st, cnt) \<Rightarrow>
          (if st = 1 then Inr (take (nat lo) xs @ vs @ drop (nat (max lo hi)) xs)
           else if length vs \<noteq> cnt then Inl ValueError
           else Inr (fold (\<lambda>(i, v) ys. ys[i := v]) (zip (positions lo st cnt) vs) xs)))"

definition list_delslice :: "val list \<Rightarrow> slice \<Rightarrow> error + val list" where
  "list_delslice xs s =
     (case slice_indices (length xs) s of
        Inl e \<Rightarrow> Inl e
      | Inr (lo, hi, st, cnt) \<Rightarrow>
          (if st = 1 then Inr (take (nat lo) xs @ drop (nat (max lo hi)) xs)
           else Inr (map (\<lambda>i. xs ! i)
                  (filter (\<lambda>i. i \<notin> set (positions lo st cnt)) [0..<length xs]))))"

text \<open>\<^verbatim>\<open>list.insert\<close>: the position is clipped to the list.\<close>

definition list_insert :: "val list \<Rightarrow> int \<Rightarrow> val \<Rightarrow> val list" where
  "list_insert xs pos v =
     (let n = int (length xs);
          w = (if pos < 0 then max 0 (pos + n) else min pos n)
      in take (nat w) xs @ [v] @ drop (nat w) xs)"

text \<open>
  \<^verbatim>\<open>list.pop(index)\<close>: an empty list and an index out of range raise \<^verbatim>\<open>IndexError\<close>;
  otherwise the item is taken out and returned.
\<close>

definition list_pop :: "val list \<Rightarrow> int \<Rightarrow> error + val \<times> val list" where
  "list_pop xs index =
     (let n = int (length xs)
      in if n = 0 then Inl IndexError
         else
           let i = (if index < 0 then index + n else index)
           in if i < 0 \<or> n \<le> i then Inl IndexError
              else Inr (xs ! nat i, take (nat i) xs @ drop (Suc (nat i)) xs))"

text \<open>
  The position of the first item equal to \<open>v\<close>, if any; a comparison that raises ends
  the search. \<^verbatim>\<open>index\<close>, \<^verbatim>\<open>remove\<close> and the membership test search this way, from
  position \<open>k\<close> on.
\<close>

fun search :: "(cmpop \<Rightarrow> val \<Rightarrow> val \<Rightarrow> error + bool) \<Rightarrow> val list \<Rightarrow> val \<Rightarrow> nat \<Rightarrow> error + nat option" where
  "search rc [] v k = Inr None"
| "search rc (x # xs) v k =
     (case RichCompareBool_EQ rc x v of
        Inl e \<Rightarrow> Inl e
      | Inr True \<Rightarrow> Inr (Some k)
      | Inr False \<Rightarrow> search rc xs v (Suc k))"

definition list_index :: "(cmpop \<Rightarrow> val \<Rightarrow> val \<Rightarrow> error + bool) \<Rightarrow> val list \<Rightarrow> val \<Rightarrow> error + nat" where
  "list_index rc xs v =
     (case search rc xs v 0 of
        Inl e \<Rightarrow> Inl e
      | Inr None \<Rightarrow> Inl ValueError
      | Inr (Some i) \<Rightarrow> Inr i)"

definition list_remove :: "(cmpop \<Rightarrow> val \<Rightarrow> val \<Rightarrow> error + bool) \<Rightarrow> val list \<Rightarrow> val \<Rightarrow> error + val list" where
  "list_remove rc xs v =
     (case search rc xs v 0 of
        Inl e \<Rightarrow> Inl e
      | Inr None \<Rightarrow> Inl ValueError
      | Inr (Some i) \<Rightarrow> Inr (take i xs @ drop (Suc i) xs))"

definition list_contains :: "(cmpop \<Rightarrow> val \<Rightarrow> val \<Rightarrow> error + bool) \<Rightarrow> val list \<Rightarrow> val \<Rightarrow> error + bool" where
  "list_contains rc xs v =
     (case search rc xs v 0 of
        Inl e \<Rightarrow> Inl e
      | Inr r \<Rightarrow> Inr (r \<noteq> None))"

fun list_count :: "(cmpop \<Rightarrow> val \<Rightarrow> val \<Rightarrow> error + bool) \<Rightarrow> val list \<Rightarrow> val \<Rightarrow> error + nat" where
  "list_count rc [] v = Inr 0"
| "list_count rc (x # xs) v =
     (case RichCompareBool_EQ rc x v of
        Inl e \<Rightarrow> Inl e
      | Inr b \<Rightarrow>
          (case list_count rc xs v of
             Inl e \<Rightarrow> Inl e
           | Inr c \<Rightarrow> Inr (if b then Suc c else c)))"

text \<open>
  \<^verbatim>\<open>list.extend(iterable)\<close> on the list object at \<open>l\<close>. A list or a tuple is read
  whole before anything is appended. Any other iterable is read item by item while the
  list grows: when it is a \<^verbatim>\<open>FrozenList\<close> whose \<^verbatim>\<open>_items\<close> is the list \<open>l\<close> itself and
  is not empty, the iterator never reaches the end, and the call does not return
  (\<open>None\<close>).
\<close>

definition list_extend :: "heap \<Rightarrow> nat \<Rightarrow> pyobj \<Rightarrow> ((error + unit) \<times> heap) option" where
  "list_extend h l iterable =
     (case elements h iterable of
        Inl e \<Rightarrow> Some (Inl e, h)
      | Inr vs \<Rightarrow>
          (case iterable of
             Val (FLRef y) \<Rightarrow>
               (if items (objs h ! y) = l \<and> lists h ! l \<noteq> [] then None
                else Some (Inr (), store_list h l (lists h ! l @ vs)))
           | _ \<Rightarrow> Some (Inr (), store_list h l (lists h ! l @ vs))))"

text \<open>
  \<^verbatim>\<open>list.sort(*, key=None, reverse=False)\<close>: both parameters are keyword-only, and a
  call that passes any positional argument raises \<^verbatim>\<open>TypeError\<close> (``sort() takes no
  positional arguments'') before the list is touched. \<open>args\<close> are the positional
  arguments of the call, \<open>key\<close> and \<open>reverse\<close> the keyword arguments. Without
  positional arguments the list is sorted by the keys in ascending order, or descending
  with \<open>reverse\<close>, items of equal key keeping their order. Keys are integers here:
  with no key function the items themselves must be integers.
\<close>

datatype sort_arg = KeyArg "(val \<Rightarrow> int) option" | ReverseArg bool

fun is_int :: "val \<Rightarrow> bool" where
  "is_int (PyInt i) = True"
| "is_int _ = False"

fun int_of :: "val \<Rightarrow> int" where
  "int_of (PyInt i) = i"
| "int_of _ = 0"

definition stable_sort :: "(val \<Rightarrow> int) \<Rightarrow> bool \<Rightarrow> val list \<Rightarrow> val list" where
  "stable_sort f reverse xs = (if reverse then sort_key (\<lambda>x. - f x) xs else sort_key f xs)"

definition list_sort ::
  "val list \<Rightarrow> sort_arg list \<Rightarrow> (val \<Rightarrow> int) option \<Rightarrow> bool \<Rightarrow> error + val list" where
  "list_sort xs args key reverse =
     (if args \<noteq> [] then Inl TypeError
      else
        (case key of
           Some f \<Rightarrow> Inr (stable_sort f reverse xs)
         | None \<Rightarrow>
             (if list_all is_int xs then Inr (stable_sort int_of reverse xs)
              else Inl TypeError)))"


section \<open>The class FrozenList\<close>

text \<open>
  Every method takes the heap and the address \<open>self\<close> of the instance, and gives the
  heap after the call together with the value returned or the exception raised. Methods
  that change nothing give the result alone. Methods that compare items take the bound
  \<open>d\<close> on the depth of nested comparisons.
\<close>

text \<open>
  \<^verbatim>\<open>FrozenList(items)\<close>: the new instance, unfrozen, with a list object of its own:
  a new list of the items of the source, or a new empty list when there is no source.
\<close>

definition init :: "heap \<Rightarrow> pyobj \<Rightarrow> error + nat \<times> heap" where
  "init h its =
     (case (if its \<noteq> Val PyNone then PySequence_List h its else Inr (PyList_New h [])) of
        Inl e \<Rightarrow> Inl e
      | Inr (l, h1) \<Rightarrow>
          Inr (length (objs h1), h1\<lparr>objs := objs h1 @ [\<lparr>frozen = False, items = l\<rparr>]\<rparr>))"

definition frozen_prop :: "heap \<Rightarrow> nat \<Rightarrow> bool" where
  "frozen_prop h self = frozen (objs h ! self)"

definition check_frozen :: "heap \<Rightarrow> nat \<Rightarrow> error + unit" where
  "check_frozen h self =
     (if frozen (objs h ! self) then Inl (RuntimeError ''Cannot modify frozen list.'')
      else Inr ())"

definition fast_len :: "heap \<Rightarrow> nat \<Rightarrow> nat" where
  "fast_len h self = length (items_of h self)"

definition freeze :: "heap \<Rightarrow> nat \<Rightarrow> (error + unit) \<times> heap" where
  "freeze h self = (Inr (), h\<lparr>objs := (objs h)[self := (objs h ! self)\<lparr>frozen := True\<rparr>]\<rparr>)"

text \<open>
  \<^verbatim>\<open>__getitem__\<close>, \<^verbatim>\<open>__setitem__\<close> and \<^verbatim>\<open>__delitem__\<close> with an integer index, and
  with a slice; a slice of the list is a new list object.
\<close>

definition getitem :: "heap \<Rightarrow> nat \<Rightarrow> int \<Rightarrow> error + val" where
  "getitem h self index = list_getitem (items_of h self) index"


definition setitem :: "heap \<Rightarrow> nat \<Rightarrow> int \<Rightarrow> val \<Rightarrow> (error + unit) \<times> heap" where
  "setitem h self index v =
     (case check_frozen h self of
        Inl e \<Rightarrow> (Inl e, h)
      | Inr _ \<Rightarrow>
          (case list_setitem (items_of h self) index v of
             Inl e \<Rightarrow> (Inl e, h)
           | Inr ys \<Rightarrow> (Inr (), store_list h (items (objs h ! self)) ys)))"

definition setitem_slice :: "heap \<Rightarrow> nat \<Rightarrow> slice \<Rightarrow> pyobj \<Rightarrow> (error + unit) \<times> heap" where
  "setitem_slice h self s v =
     (case check_frozen h self of
        Inl e \<Rightarrow> (Inl e, h)
      | Inr _ \<Rightarrow>
          (case slice_indices (length (items_of h self)) s of
             Inl e \<Rightarrow> (Inl e, h)
           | Inr _ \<Rightarrow>
               (case elements h v of
                  Inl e \<Rightarrow> (Inl e, h)
                | Inr vs \<Rightarrow>
                    (case list_setslice (items_of h self) s vs of
                       Inl e \<Rightarrow> (Inl e, h)
                     | Inr ys \<Rightarrow> (Inr (), store_list h (items (objs h ! self)) ys)))))"

definition delitem :: "heap \<Rightarrow> nat \<Rightarrow> int \<Rightarrow> (error + unit) \<times> heap" where
  "delitem h self index =
     (case check_frozen h self of
        Inl e \<Rightarrow> (Inl e, h)
      | Inr _ \<Rightarrow>
          (case list_delitem (items_of h self) index of
             Inl e \<Rightarrow> (Inl e, h)
           | Inr ys \<Rightarrow> (Inr (), store_list h (items (objs h ! self)) ys)))"

definition delitem_slice :: "heap \<Rightarrow> nat \<Rightarrow> slice \<Rightarrow> (error + unit) \<times> heap" where
  "delitem_slice h self s =
     (case check_frozen h self of
        Inl e \<Rightarrow> (Inl e, h)
      | Inr _ \<Rightarrow>
          (case list_delslice (items_of h self) s of
             Inl e \<Rightarrow> (Inl e, h)
           | Inr ys \<Rightarrow> (Inr (), store_list h (items (objs h ! self)) ys)))"

definition len_fl :: "heap \<Rightarrow> nat \<Rightarrow> int" where
  "len_fl h self = int (fast_len h self)"

text \<open>
  \<^verbatim>\<open>__iter__\<close> and \<^verbatim>\<open>__reversed__\<close> give iterators over \<^verbatim>\<open>_items\<close>: what they
  yield, read to the end at once.
\<close>

definition iter_fl :: "heap \<Rightarrow> nat \<Rightarrow> val list" where
  "iter_fl h self = items_of h self"

definition reversed_fl :: "heap \<Rightarrow> nat \<Rightarrow> val list" where
  "reversed_fl h self = rev (items_of h self)"

text \<open>
  \<^verbatim>\<open>__richcmp__(self, other, op)\<close> with the operator as the number the interpreter
  passes; for any other number no branch is taken and the method returns \<^verbatim>\<open>None\<close>.
\<close>

definition richcmp :: "nat \<Rightarrow> heap \<Rightarrow> nat \<Rightarrow> pyobj \<Rightarrow> int \<Rightarrow> error + bool option" where
  "richcmp d h self other op =
     (if op = 0 then map_sum id Some (list_cmp (RichCompare d h) h Py_LT (items_of h self) other)
      else if op = 1 then map_sum id Some (list_cmp (RichCompare d h) h Py_LE (items_of h self) other)
      else if op = 2 then map_sum id Some (list_cmp (RichCompare d h) h Py_EQ (items_of h self) other)
      else if op = 3 then map_sum id Some (list_cmp (RichCompare d h) h Py_NE (items_of h self) other)
      else if op = 4 then map_sum id Some (list_cmp (RichCompare d h) h Py_GT (items_of h self) other)
      else if op = 5 then map_sum id Some (list_cmp (RichCompare d h) h Py_GE (items_of h self) other)
      else Inr None)"

definition insert_fl :: "heap \<Rightarrow> nat \<Rightarrow> int \<Rightarrow> val \<Rightarrow> (error + unit) \<times> heap" where
  "insert_fl h self pos item =
     (case check_frozen h self of
        Inl e \<Rightarrow> (Inl e, h)
      | Inr _ \<Rightarrow>
          (Inr (), store_list h (items (objs h ! self)) (list_insert (items_of h self) pos item)))"

definition contains :: "nat \<Rightarrow> heap \<Rightarrow> nat \<Rightarrow> val \<Rightarrow> error + bool" where
  "contains d h self item = list_contains (RichCompare d h) (items_of h self) item"

text \<open>\<^verbatim>\<open>__iadd__\<close> returns \<^verbatim>\<open>self\<close>.\<close>

definition iadd :: "heap \<Rightarrow> nat \<Rightarrow> pyobj \<Rightarrow> ((error + val) \<times> heap) option" where
  "iadd h self its =
     (case check_frozen h self of
        Inl e \<Rightarrow> Some (Inl e, h)
      | Inr _ \<Rightarrow>
          (case list_extend h (items (objs h ! self)) its of
             None \<Rightarrow> None
           | Some (Inl e, h1) \<Rightarrow> Some (Inl e, h1)
           | Some (Inr _, h1) \<Rightarrow> Some (Inr (FLRef self), h1)))"

text \<open>
  \<^verbatim>\<open>sort(key, reverse)\<close> hands both of its arguments to \<^verbatim>\<open>list.sort\<close> by position.
\<close>

definition sort_fl :: "heap \<Rightarrow> nat \<Rightarrow> (val \<Rightarrow> int) option \<Rightarrow> bool \<Rightarrow> (error + unit) \<times> heap" where
  "sort_fl h self key reverse =
     (case check_frozen h self of
        Inl e \<Rightarrow> (Inl e, h)
      | Inr _ \<Rightarrow>
          (case list_sort (items_of h self) [KeyArg key, ReverseArg reverse] None False of
             Inl e \<Rightarrow> (Inl e, h)
           | Inr ys \<Rightarrow> (Inr (), store_list h (items (objs h ! self)) ys)))"

definition index_fl :: "nat \<Rightarrow> heap \<Rightarrow> nat \<Rightarrow> val \<Rightarrow> error + nat" where
  "index_fl d h self item = list_index (RichCompare d h) (items_of h self) item"

definition remove_fl :: "nat \<Rightarrow> heap \<Rightarrow> nat \<Rightarrow> val \<Rightarrow> (error + unit) \<times> heap" where
  "remove_fl d h self item =
     (case check_frozen h self of
        Inl e \<Rightarrow> (Inl e, h)
      | Inr _ \<Rightarrow>
          (case list_remove (RichCompare d h) (items_of h self) item of
             Inl e \<Rightarrow> (Inl e, h)
           | Inr ys \<Rightarrow> (Inr (), store_list h (items (objs h ! self)) ys)))"

definition clear :: "heap \<Rightarrow> nat \<Rightarrow> (error + unit) \<times> heap" where
  "clear h self =
     (case check_frozen h self of
        Inl e \<Rightarrow> (Inl e, h)
      | Inr _ \<Rightarrow> (Inr (), store_list h (items (objs h ! self)) []))"

definition extend_fl :: "heap \<Rightarrow> nat \<Rightarrow> pyobj \<Rightarrow> ((error + unit) \<times> heap) option" where
  "extend_fl h self its =
     (case check_frozen h self of
        Inl e \<Rightarrow> Some (Inl e, h)
      | Inr _ \<Rightarrow> list_extend h (items (objs h ! self)) its)"

definition reverse :: "heap \<Rightarrow> nat \<Rightarrow> (error + unit) \<times> heap" where
  "reverse h self =
     (case check_frozen h self of
        Inl e \<Rightarrow> (Inl e, h)
      | Inr _ \<Rightarrow> (Inr (), store_list h (items (objs h ! self)) (rev (items_of h self))))"

text \<open>\<^verbatim>\<open>pop(index=-1)\<close>; \<open>pop_last\<close> is the call with no argument.\<close>

definition pop :: "heap \<Rightarrow> nat \<Rightarrow> int \<Rightarrow> (error + val) \<times> heap" where
  "pop h self index =
     (case check_frozen h self of
        Inl e \<Rightarrow> (Inl e, h)
      | Inr _ \<Rightarrow>
          (case list_pop (items_of h self) index of
             Inl e \<Rightarrow> (Inl e, h)
           | Inr (v, ys) \<Rightarrow> (Inr v, store_list h (items (objs h ! self)) ys)))"

definition pop_last :: "heap \<Rightarrow> nat \<Rightarrow> (error + val) \<times> heap" where
  "pop_last h self = pop h self (- 1)"

definition append_fl :: "heap \<Rightarrow> nat \<Rightarrow> val \<Rightarrow> (error + unit) \<times> heap" where
  "append_fl h self item =
     (case check_frozen h self of
        Inl e \<Rightarrow> (Inl e, h)
      | Inr _ \<Rightarrow> (Inr (), store_list h (items (objs h ! self)) (items_of h self @ [item])))"

definition count_fl :: "nat \<Rightarrow> heap \<Rightarrow> nat \<Rightarrow> val \<Rightarrow> error + nat" where
  "count_fl d h self item = list_count (RichCompare d h) (items_of h self) item"

text \<open>
  \<^verbatim>\<open>__repr__\<close>; \<open>list_repr\<close> is the representation of a list, which belongs to the
  interpreter.
\<close>

definition repr :: "(heap \<Rightarrow> val list \<Rightarrow> string) \<Rightarrow> heap \<Rightarrow> nat \<Rightarrow> string" where
  "repr list_repr h self =
     ''<FrozenList(frozen='' @ (if frozen (objs h ! self) then ''True'' else ''False'')
       @ '', '' @ list_repr h (items_of h self) @ '')>''"

text \<open>
  \<^verbatim>\<open>__hash__\<close>; \<open>tuple_hash\<close> is the interpreter's hash of a tuple of the given
  items, which raises when an item cannot be hashed.
\<close>

definition hash_fl :: "(heap \<Rightarrow> val list \<Rightarrow> error + int) \<Rightarrow> heap \<Rightarrow> nat \<Rightarrow> error + int" where
  "hash_fl tuple_hash h self =
     (if frozen (objs h ! self) then tuple_hash h (items_of h self)
      else Inl (RuntimeError ''Cannot hash unfrozen list.''))"


section \<open>Deep copy\<close>

text \<open>
  The memo of a deep copy maps the identity of an object to its copy; objects are named
  by the values that refer to them. A copy may not return (\<open>None\<close>); when it returns
  it gives the copy or the exception, the heap and the memo.
\<close>

type_synonym memo = "val \<rightharpoonup> val"

type_synonym 'a copied = "((error + 'a) \<times> heap \<times> memo) option"

text \<open>
  \<^verbatim>\<open>[copy.deepcopy(item, memo) for item in items]\<close>, where \<open>dc\<close> is
  \<^verbatim>\<open>copy.deepcopy\<close>: the copies in order, each made in the heap and with the memo that
  the one before left.
\<close>

fun copy_items ::
  "(val \<Rightarrow> heap \<Rightarrow> memo \<Rightarrow> val copied) \<Rightarrow> val list \<Rightarrow> heap \<Rightarrow> memo \<Rightarrow> (val list) copied" where
  "copy_items dc [] h memo = Some (Inr [], h, memo)"
| "copy_items dc (v # vs) h memo =
     (case dc v h memo of
        None \<Rightarrow> None
      | Some (Inl e, h1, memo1) \<Rightarrow> Some (Inl e, h1, memo1)
      | Some (Inr y, h1, memo1) \<Rightarrow>
          (case copy_items dc vs h1 memo1 of
             None \<Rightarrow> None
           | Some (Inl e, h2, memo2) \<Rightarrow> Some (Inl e, h2, memo2)
           | Some (Inr ys, h2, memo2) \<Rightarrow> Some (Inr (y # ys), h2, memo2)))"

text \<open>
  \<^verbatim>\<open>__deepcopy__(self, memo)\<close>. An instance already in the memo gives the copy
  registered there. Otherwise a new instance is made from the empty list \<^verbatim>\<open>[]\<close> and
  registered at once, the copies of the items are made and written into its list, and it
  is frozen when \<^verbatim>\<open>self\<close> is.
\<close>

definition deepcopy_fl ::
  "(val \<Rightarrow> heap \<Rightarrow> memo \<Rightarrow> val copied) \<Rightarrow> heap \<Rightarrow> nat \<Rightarrow> memo \<Rightarrow> val copied" where
  "deepcopy_fl dc h self memo =
     (case memo (FLRef self) of
        Some y \<Rightarrow> Some (Inr y, h, memo)
      | None \<Rightarrow>
          (case PyList_New h [] of
             (e, h0) \<Rightarrow>
               (case init h0 (Val (ListRef e)) of
                  Inl err \<Rightarrow> Some (Inl err, h0, memo)
                | Inr (new_list, h1) \<Rightarrow>
                    (case copy_items dc (items_of h1 self) h1 (memo(FLRef self \<mapsto> FLRef new_list)) of
                       None \<Rightarrow> None
                     | Some (Inl err, h2, memo2) \<Rightarrow> Some (Inl err, h2, memo2)
                     | Some (Inr vs, h2, memo2) \<Rightarrow>
                         (let h3 = store_list h2 (items (objs h2 ! new_list)) vs;
                              h4 = (if frozen (objs h3 ! self) then snd (freeze h3 new_list) else h3)
                          in Some (Inr (FLRef new_list), h4, memo2))))))"

text \<open>
  \<^verbatim>\<open>_deepcopy_list\<close> of the module \<^verbatim>\<open>copy\<close>: the new list is registered empty, and
  the copy of each item is appended to it in turn.
\<close>

fun append_copies ::
  "(val \<Rightarrow> heap \<Rightarrow> memo \<Rightarrow> val copied) \<Rightarrow> val list \<Rightarrow> nat \<Rightarrow> heap \<Rightarrow> memo \<Rightarrow> unit copied" where
  "append_copies dc [] y h memo = Some (Inr (), h, memo)"
| "append_copies dc (a # as) y h memo =
     (case dc a h memo of
        None \<Rightarrow> None
      | Some (Inl e, h1, memo1) \<Rightarrow> Some (Inl e, h1, memo1)
      | Some (Inr v, h1, memo1) \<Rightarrow>
          append_copies dc as y (store_list h1 y (lists h1 ! y @ [v])) memo1)"

definition deepcopy_list ::
  "(val \<Rightarrow> heap \<Rightarrow> memo \<Rightarrow> val copied) \<Rightarrow> heap \<Rightarrow> nat \<Rightarrow> memo \<Rightarrow> val copied" where
  "deepcopy_list dc h x memo =
     (case PyList_New h [] of
        (y, h1) \<Rightarrow>
          (case append_copies dc (lists h1 ! x) y h1 (memo(ListRef x \<mapsto> ListRef y)) of
             None \<Rightarrow> None
           | Some (Inl e, h2, memo2) \<Rightarrow> Some (Inl e, h2, memo2)
           | Some (Inr u, h2, memo2) \<Rightarrow> Some (Inr (ListRef y), h2, memo2)))"

text \<open>
  \<^verbatim>\<open>copy.deepcopy(x, memo)\<close>. An object found in the memo gives its registered copy.
  \<^verbatim>\<open>None\<close> and integers are their own copies; a list is copied by
  \<^verbatim>\<open>_deepcopy_list\<close>, a \<^verbatim>\<open>FrozenList\<close> by its \<^verbatim>\<open>__deepcopy__\<close>, and a copy that is
  not the object itself is registered. The first argument bounds the depth of the nested
  calls; a copy that needs more does not return.
\<close>

primrec deepcopy :: "nat \<Rightarrow> val \<Rightarrow> heap \<Rightarrow> memo \<Rightarrow> val copied" where
  "deepcopy 0 x h memo = None"
| "deepcopy (Suc n) x h memo =
     (case memo x of
        Some y \<Rightarrow> Some (Inr y, h, memo)
      | None \<Rightarrow>
          (case
             (case x of
                PyNone \<Rightarrow> Some (Inr x, h, memo)
              | PyInt i \<Rightarrow> Some (Inr x, h, memo)
              | ListRef l \<Rightarrow> deepcopy_list (deepcopy n) h l memo
              | FLRef a \<Rightarrow> deepcopy_fl (deepcopy n) h a memo)
           of
             None \<Rightarrow> None
           | Some (Inl e, h1, memo1) \<Rightarrow> Some (Inl e, h1, memo1)
           | Some (Inr y, h1, memo1) \<Rightarrow>
               Some (Inr y, h1, if y \<noteq> x then memo1(x \<mapsto> y) else memo1)))"

text \<open>
  \<^verbatim>\<open>copy.deepcopy(x)\<close> of an instance \<open>x\<close>, with a new, empty memo.
\<close>

definition deepcopy_top :: "nat \<Rightarrow> heap \<Rightarrow> nat \<Rightarrow> val copied" where
  "deepcopy_top n h x = deepcopy n (FLRef x) h Map.empty"


section \<open>Well-formed instances, flags and operators\<close>

text \<open>
  An instance is well formed in a heap when it is allocated there and its \<^verbatim>\<open>_items\<close>
  is an allocated list object.
\<close>

definition is_instance :: "heap \<Rightarrow> nat \<Rightarrow> bool" where
  "is_instance h x = (x < length (objs h) \<and> items (objs h ! x) < length (lists h))"


text \<open>An object that an operation is given exists in the heap.\<close>

definition allocated :: "heap \<Rightarrow> pyobj \<Rightarrow> bool" where
  "allocated h ob =
     (case ob of
        Val (ListRef l) \<Rightarrow> l < length (lists h)
      | Val (FLRef y) \<Rightarrow> is_instance h y
      | _ \<Rightarrow> True)"

text \<open>The heap in which the flag of the instance \<open>x\<close> is \<open>b\<close>, all else being equal.\<close>

definition set_frozen :: "heap \<Rightarrow> nat \<Rightarrow> bool \<Rightarrow> heap" where
  "set_frozen h x b = h\<lparr>objs := (objs h)[x := (objs h ! x)\<lparr>frozen := b\<rparr>]\<rparr>"

text \<open>The number by which the interpreter names a comparison operator.\<close>

fun op_code :: "cmpop \<Rightarrow> int" where
  "op_code Py_LT = 0"
| "op_code Py_LE = 1"
| "op_code Py_EQ = 2"
| "op_code Py_NE = 3"
| "op_code Py_GT = 4"
| "op_code Py_GE = 5"

text \<open>
  The lexicographic comparison of two sequences of integers, in the words of the
  specification: the order of lists of \<open>HOL-Library.List_Lexorder\<close>.
\<close>

fun lex_cmp :: "cmpop \<Rightarrow> int list \<Rightarrow> int list \<Rightarrow> bool" where
  "lex_cmp Py_LT as bs = (as < bs)"
| "lex_cmp Py_LE as bs = (as \<le> bs)"
| "lex_cmp Py_EQ as bs = (as = bs)"
| "lex_cmp Py_NE as bs = (as \<noteq> bs)"
| "lex_cmp Py_GT as bs = (bs < as)"
| "lex_cmp Py_GE as bs = (bs \<le> as)"


section \<open>Heaps used as examples\<close>

text \<open>One frozen instance holding 1, 2, 3.\<close>

definition frozen123 :: heap where
  "frozen123 = \<lparr>lists = [[PyInt 1, PyInt 2, PyInt 3]], objs = [\<lparr>frozen = True, items = 0\<rparr>]\<rparr>"

text \<open>One frozen instance holding nothing.\<close>

definition frozen_empty :: heap where
  "frozen_empty = \<lparr>lists = [[]], objs = [\<lparr>frozen = True, items = 0\<rparr>]\<rparr>"


text \<open>One unfrozen instance holding 3, 1, 2.\<close>

definition unfrozen312 :: heap where
  "unfrozen312 = \<lparr>lists = [[PyInt 3, PyInt 1, PyInt 2]], objs = [\<lparr>frozen = False, items = 0\<rparr>]\<rparr>"

text \<open>Two frozen instances holding the same items, 1 and 2, in lists of their own.\<close>

definition two_frozen :: heap where
  "two_frozen =
     \<lparr>lists = [[PyInt 1, PyInt 2], [PyInt 1, PyInt 2]],
      objs = [\<lparr>frozen = True, items = 0\<rparr>, \<lparr>frozen = True, items = 1\<rparr>]\<rparr>"

text \<open>A stand-in for the interpreter's hash of a tuple: the sum of its integers.\<close>

definition sum_hash :: "heap \<Rightarrow> val list \<Rightarrow> error + int" where
  "sum_hash h vs = Inr (sum_list (map int_of vs))"

text \<open>An unfrozen instance holding 1, 2 and a frozen one holding 1, 3.\<close>

definition pair_12_13 :: heap where
  "pair_12_13 =
     \<lparr>lists = [[PyInt 1, PyInt 2], [PyInt 1, PyInt 3]],
      objs = [\<lparr>frozen = False, items = 0\<rparr>, \<lparr>frozen = True, items = 1\<rparr>]\<rparr>"

text \<open>An unfrozen instance holding 1.\<close>

definition unfrozen1 :: heap where
  "unfrozen1 = \<lparr>lists = [[PyInt 1]], objs = [\<lparr>frozen = False, items = 0\<rparr>]\<rparr>"

text \<open>A plain list holding 1, 2 and no instance.\<close>

definition one_list :: heap where
  "one_list = \<lparr>lists = [[PyInt 1, PyInt 2]], objs = []\<rparr>"


section \<open>Heaps and their copies\<close>

text \<open>
  A value refers to an object of the heap, or is \<^verbatim>\<open>None\<close> or an integer. A heap is
  well formed when the \<^verbatim>\<open>_items\<close> of every instance is a list object of the heap and
  every item of every list is a value of the heap.
\<close>

fun is_ref :: "val \<Rightarrow> bool" where
  "is_ref (ListRef l) = True"
| "is_ref (FLRef a) = True"
| "is_ref _ = False"

fun valid :: "heap \<Rightarrow> val \<Rightarrow> bool" where
  "valid h (ListRef l) = (l < length (lists h))"
| "valid h (FLRef a) = (a < length (objs h))"
| "valid h _ = True"

definition wf_heap :: "heap \<Rightarrow> bool" where
  "wf_heap h =
     (list_all (\<lambda>ob. items ob < length (lists h)) (objs h)
      \<and> list_all (list_all (valid h)) (lists h))"

text \<open>
  The items of the object a value refers to, and the list object that holds them: the
  list itself, or the \<^verbatim>\<open>_items\<close> of an instance.
\<close>

fun children :: "heap \<Rightarrow> val \<Rightarrow> val list" where
  "children h (ListRef l) = lists h ! l"
| "children h (FLRef a) = items_of h a"
| "children h _ = []"

fun cell :: "heap \<Rightarrow> val \<Rightarrow> nat" where
  "cell h (ListRef l) = l"
| "cell h (FLRef a) = items (objs h ! a)"
| "cell h _ = 0"

text \<open>A value as the copy sees it: a copied object is replaced by its copy.\<close>

definition rename :: "memo \<Rightarrow> val \<Rightarrow> val" where
  "rename m v = (case m v of Some y \<Rightarrow> y | None \<Rightarrow> v)"

text \<open>The objects of a heap, as the values that refer to them.\<close>

definition nodes :: "heap \<Rightarrow> val set" where
  "nodes h = ListRef ` {..<length (lists h)} \<union> FLRef ` {..<length (objs h)}"

text \<open>
  \<open>extends h h'\<close>: every object of \<open>h\<close> is in \<open>h'\<close> as it was, and \<open>h'\<close> may hold
  more objects. \<open>extends_but y h h'\<close> leaves out the list object \<open>y\<close>.
\<close>

definition extends :: "heap \<Rightarrow> heap \<Rightarrow> bool" where
  "extends h h' =
     (length (lists h) \<le> length (lists h') \<and> (\<forall>c<length (lists h). lists h' ! c = lists h ! c)
      \<and> length (objs h) \<le> length (objs h') \<and> (\<forall>c<length (objs h). objs h' ! c = objs h ! c))"

definition extends_but :: "nat \<Rightarrow> heap \<Rightarrow> heap \<Rightarrow> bool" where
  "extends_but y h h' =
     (length (lists h) \<le> length (lists h')
      \<and> (\<forall>c<length (lists h). c \<noteq> y \<longrightarrow> lists h' ! c = lists h ! c)
      \<and> length (objs h) \<le> length (objs h') \<and> (\<forall>c<length (objs h). objs h' ! c = objs h ! c))"

text \<open>
  \<open>touches h v h'\<close>: nothing differs between \<open>h\<close> and \<open>h'\<close> but the contents of the
  list that holds the items of \<open>v\<close> and, when \<open>v\<close> is an instance, its flag.
\<close>

definition touches :: "heap \<Rightarrow> val \<Rightarrow> heap \<Rightarrow> bool" where
  "touches h v h' =
     (length (lists h') = length (lists h) \<and> length (objs h') = length (objs h)
      \<and> (\<forall>c. c \<noteq> cell h v \<longrightarrow> lists h' ! c = lists h ! c)
      \<and> (\<forall>c. items (objs h' ! c) = items (objs h ! c))
      \<and> (\<forall>c. FLRef c \<noteq> v \<longrightarrow> objs h' ! c = objs h ! c))"

text \<open>
  The state of a deep copy of objects of the heap \<open>h0\<close>, in the heap \<open>h\<close> with the
  memo \<open>m\<close>. The copy \<open>v\<close> registered for \<open>k\<close> has the kind of \<open>k\<close> and is not an
  object of \<open>h0\<close> (\<open>copy_shape\<close>); an instance is copied with its flag
  (\<open>same_flag\<close>); a copy is complete when its items are the items of the original as
  the copy sees them, every object among them being registered (\<open>complete\<close>). The
  invariant \<open>INV\<close>: \<open>h0\<close> is untouched, every registered copy has the right shape, no two
  copies hold their items in the same list, and every copy is complete but those of the
  objects \<open>S\<close> whose copy is in progress.
\<close>

fun copy_shape :: "heap \<Rightarrow> heap \<Rightarrow> val \<Rightarrow> val \<Rightarrow> bool" where
  "copy_shape h0 h (ListRef l) (ListRef c) =
     (l < length (lists h0) \<and> length (lists h0) \<le> c \<and> c < length (lists h))"
| "copy_shape h0 h (FLRef a) (FLRef c) =
     (a < length (objs h0) \<and> length (objs h0) \<le> c \<and> c < length (objs h)
      \<and> length (lists h0) \<le> items (objs h ! c) \<and> items (objs h ! c) < length (lists h))"
| "copy_shape h0 h _ _ = False"

fun same_flag :: "heap \<Rightarrow> heap \<Rightarrow> val \<Rightarrow> val \<Rightarrow> bool" where
  "same_flag h0 h (FLRef a) (FLRef c) = (frozen (objs h ! c) = frozen (objs h0 ! a))"
| "same_flag h0 h (ListRef l) (ListRef c) = True"
| "same_flag h0 h _ _ = False"

definition complete :: "heap \<Rightarrow> heap \<Rightarrow> memo \<Rightarrow> val \<Rightarrow> val \<Rightarrow> bool" where
  "complete h0 h m k v =
     (lists h ! cell h v = map (rename m) (children h0 k)
      \<and> (\<forall>u\<in>set (children h0 k). is_ref u \<longrightarrow> u \<in> dom m)
      \<and> same_flag h0 h k v)"

definition INV :: "heap \<Rightarrow> heap \<Rightarrow> memo \<Rightarrow> val set \<Rightarrow> bool" where
  "INV h0 h m S =
     (extends h0 h
      \<and> (\<forall>k v. m k = Some v \<longrightarrow> copy_shape h0 h k v)
      \<and> (\<forall>k k' v v'. m k = Some v \<and> m k' = Some v' \<and> cell h v = cell h v' \<longrightarrow> k = k')
      \<and> (\<forall>k v. m k = Some v \<and> k \<notin> S \<longrightarrow> complete h0 h m k v))"

text \<open>
  What a copy of \<open>x\<close>, of the items \<open>vs\<close>, and of the items \<open>as\<close> appended to the list
  \<open>y\<close>, gives when it goes well: it returns, the heap is extended, the memo grows, the
  invariant holds again and the result is the value as the copy sees it. \<open>dc_ok\<close>: the
  function \<open>dc\<close> copies well whenever fewer than \<open>n\<close> objects are not yet registered.
\<close>

definition copied_ok :: "heap \<Rightarrow> val set \<Rightarrow> val \<Rightarrow> heap \<Rightarrow> memo \<Rightarrow> val copied \<Rightarrow> bool" where
  "copied_ok h0 S x h m r =
     (\<exists>y h' m'. r = Some (Inr y, h', m') \<and> extends h h' \<and> m \<subseteq>\<^sub>m m' \<and> INV h0 h' m' S
        \<and> y = rename m' x \<and> (is_ref x \<longrightarrow> x \<in> dom m'))"

definition dc_ok :: "heap \<Rightarrow> (val \<Rightarrow> heap \<Rightarrow> memo \<Rightarrow> val copied) \<Rightarrow> nat \<Rightarrow> bool" where
  "dc_ok h0 dc n =
     (\<forall>x h m S. INV h0 h m S \<longrightarrow> S \<subseteq> dom m \<longrightarrow> valid h0 x \<longrightarrow> card (nodes h0 - dom m) < n
        \<longrightarrow> copied_ok h0 S x h m (dc x h m))"

definition items_ok :: "heap \<Rightarrow> val set \<Rightarrow> val list \<Rightarrow> heap \<Rightarrow> memo \<Rightarrow> (val list) copied \<Rightarrow> bool" where
  "items_ok h0 S vs h m r =
     (\<exists>ys h' m'. r = Some (Inr ys, h', m') \<and> extends h h' \<and> m \<subseteq>\<^sub>m m' \<and> INV h0 h' m' S
        \<and> ys = map (rename m') vs \<and> (\<forall>v\<in>set vs. is_ref v \<longrightarrow> v \<in> dom m'))"

definition appended_ok ::
  "heap \<Rightarrow> val set \<Rightarrow> val list \<Rightarrow> nat \<Rightarrow> heap \<Rightarrow> memo \<Rightarrow> unit copied \<Rightarrow> bool" where
  "appended_ok h0 S as y h m r =
     (\<exists>h' m'. r = Some (Inr (), h', m') \<and> extends_but y h h' \<and> m \<subseteq>\<^sub>m m' \<and> INV h0 h' m' S
        \<and> lists h' ! y = lists h ! y @ map (rename m') as
        \<and> (\<forall>v\<in>set as. is_ref v \<longrightarrow> v \<in> dom m'))"

text \<open>
  The steps of \<^verbatim>\<open>__deepcopy__\<close> and of \<^verbatim>\<open>copy.deepcopy\<close> by name: the heap after
  \<^verbatim>\<open>self.__class__([])\<close>, the heap after the items are written and the flag is set,
  and the registration of the result.
\<close>

definition alloc_fl :: "heap \<Rightarrow> heap" where
  "alloc_fl h =
     \<lparr>lists = lists h @ [[], []],
      objs = objs h @ [\<lparr>frozen = False, items = Suc (length (lists h))\<rparr>]\<rparr>"

definition finish_fl :: "heap \<Rightarrow> nat \<Rightarrow> nat \<Rightarrow> val list \<Rightarrow> heap" where
  "finish_fl h2 self new_list vs =
     (let h3 = store_list h2 (items (objs h2 ! new_list)) vs
      in if frozen (objs h3 ! self) then snd (freeze h3 new_list) else h3)"

definition memoize :: "val \<Rightarrow> val copied \<Rightarrow> val copied" where
  "memoize x r =
     (case r of
        None \<Rightarrow> None
      | Some (Inl e, h1, m1) \<Rightarrow> Some (Inl e, h1, m1)
      | Some (Inr y, h1, m1) \<Rightarrow> Some (Inr y, h1, if y \<noteq> x then m1(x \<mapsto> y) else m1))"

text \<open>
  \<open>copy_of h h' m\<close>: the memo \<open>m\<close> is a one-to-one map from objects of \<open>h\<close> to objects of
  \<open>h'\<close> that are not in \<open>h\<close>, each of the kind and with the flag of its original, whose
  items are the items of the original with every object replaced by its copy.
\<close>

definition copy_of :: "heap \<Rightarrow> heap \<Rightarrow> memo \<Rightarrow> bool" where
  "copy_of h h' m =
     (inj_on m (dom m)
      \<and> (\<forall>k v. m k = Some v \<longrightarrow>
            is_ref k \<and> valid h k \<and> is_ref v \<and> \<not> valid h v \<and> valid h' v
            \<and> children h' v = map (rename m) (children h k)
            \<and> (\<forall>u\<in>set (children h k). is_ref u \<longrightarrow> u \<in> dom m)
            \<and> same_flag h h' k v))"

text \<open>
  The objects that \<open>x\<close> contains, directly or through the items of its items: \<open>x\<close>
  itself and every object among the items of an object that \<open>x\<close> contains.
\<close>

inductive_set contains_trans :: "heap \<Rightarrow> val \<Rightarrow> val set" for h :: heap and x :: val where
  self: "x \<in> contains_trans h x"
| item: "k \<in> contains_trans h x \<Longrightarrow> u \<in> set (children h k) \<Longrightarrow> is_ref u \<Longrightarrow> u \<in> contains_trans h x"

text \<open>
  Two instances that hold one another: the first, frozen, holds 7 and the second; the
  second, not frozen, holds the first. And the heap after a deep copy of the first.
\<close>

definition mutual :: heap where
  "mutual =
     \<lparr>lists = [[PyInt 7, FLRef 1], [FLRef 0]],
      objs = [\<lparr>frozen = True, items = 0\<rparr>, \<lparr>frozen = False, items = 1\<rparr>]\<rparr>"

definition mutual_copy :: heap where
  "mutual_copy =
     \<lparr>lists = [[PyInt 7, FLRef 1], [FLRef 0], [], [PyInt 7, FLRef 3], [], [FLRef 2]],
      objs = [\<lparr>frozen = True, items = 0\<rparr>, \<lparr>frozen = False, items = 1\<rparr>,
              \<lparr>frozen = True, items = 3\<rparr>, \<lparr>frozen = False, items = 5\<rparr>]\<rparr>"


section \<open>Sequences of operations\<close>









section \<open>Lemmas on flags\<close>

lemma items_set_frozen: "items (objs (set_frozen h x b) ! y) = items (objs h ! y)"
proof (cases "x < length (objs h)")
  case True
  then show ?thesis by (simp add: set_frozen_def nth_list_update)
next
  case False
  then have "(objs h)[x := (objs h ! x)\<lparr>frozen := b\<rparr>] = objs h"
    by (intro list_update_beyond) simp
  then show ?thesis by (simp add: set_frozen_def)
qed

lemma lists_set_frozen: "lists (set_frozen h x b) = lists h"
  by (simp add: set_frozen_def)

lemma length_objs_set_frozen: "length (objs (set_frozen h x b)) = length (objs h)"
  by (simp add: set_frozen_def)

lemma objs_set_frozen_other: "y \<noteq> x \<Longrightarrow> objs (set_frozen h x b) ! y = objs h ! y"
  by (simp add: set_frozen_def)

lemma frozen_set_frozen: "x < length (objs h) \<Longrightarrow> frozen (objs (set_frozen h x b) ! x) = b"
  by (simp add: set_frozen_def)

lemma freeze_set_frozen: "snd (freeze h x) = set_frozen h x True"
  by (simp add: freeze_def set_frozen_def)


section \<open>The frozen guard\<close>

lemma check_frozen_True:
  "frozen (objs h ! x) \<Longrightarrow> check_frozen h x = Inl (RuntimeError ''Cannot modify frozen list.'')"
  by (simp add: check_frozen_def)

lemma check_frozen_False: "\<not> frozen (objs h ! x) \<Longrightarrow> check_frozen h x = Inr ()"
  by (simp add: check_frozen_def)

text \<open>
  C1. On a frozen instance every mutating operation raises the frozen-state error
  (\<^verbatim>\<open>RuntimeError\<close>, ``Cannot modify frozen list.'') and returns the heap it was given:
  the items and their number are as before, and so is everything else.
\<close>

theorem frozen_rejects_mutation:
  assumes "frozen (objs h ! x)"
  shows "setitem h x i v = (Inl (RuntimeError ''Cannot modify frozen list.''), h)
    \<and> setitem_slice h x s ob = (Inl (RuntimeError ''Cannot modify frozen list.''), h)
    \<and> delitem h x i = (Inl (RuntimeError ''Cannot modify frozen list.''), h)
    \<and> delitem_slice h x s = (Inl (RuntimeError ''Cannot modify frozen list.''), h)
    \<and> insert_fl h x i v = (Inl (RuntimeError ''Cannot modify frozen list.''), h)
    \<and> iadd h x ob = Some (Inl (RuntimeError ''Cannot modify frozen list.''), h)
    \<and> sort_fl h x key r = (Inl (RuntimeError ''Cannot modify frozen list.''), h)
    \<and> remove_fl d h x v = (Inl (RuntimeError ''Cannot modify frozen list.''), h)
    \<and> clear h x = (Inl (RuntimeError ''Cannot modify frozen list.''), h)
    \<and> extend_fl h x ob = Some (Inl (RuntimeError ''Cannot modify frozen list.''), h)
    \<and> reverse h x = (Inl (RuntimeError ''Cannot modify frozen list.''), h)
    \<and> pop h x i = (Inl (RuntimeError ''Cannot modify frozen list.''), h)
    \<and> append_fl h x v = (Inl (RuntimeError ''Cannot modify frozen list.''), h)"
proof -
  note g = check_frozen_True [OF assms]
  have "setitem h x i v = (Inl (RuntimeError ''Cannot modify frozen list.''), h)"
    by (simp add: setitem_def g)
  moreover have "setitem_slice h x s ob = (Inl (RuntimeError ''Cannot modify frozen list.''), h)"
    by (simp add: setitem_slice_def g)
  moreover have "delitem h x i = (Inl (RuntimeError ''Cannot modify frozen list.''), h)"
    by (simp add: delitem_def g)
  moreover have "delitem_slice h x s = (Inl (RuntimeError ''Cannot modify frozen list.''), h)"
    by (simp add: delitem_slice_def g)
  moreover have "insert_fl h x i v = (Inl (RuntimeError ''Cannot modify frozen list.''), h)"
    by (simp add: insert_fl_def g)
  moreover have "iadd h x ob = Some (Inl (RuntimeError ''Cannot modify frozen list.''), h)"
    by (simp add: iadd_def g)
  moreover have "sort_fl h x key r = (Inl (RuntimeError ''Cannot modify frozen list.''), h)"
    by (simp add: sort_fl_def g)
  moreover have "remove_fl d h x v = (Inl (RuntimeError ''Cannot modify frozen list.''), h)"
    by (simp add: remove_fl_def g)
  moreover have "clear h x = (Inl (RuntimeError ''Cannot modify frozen list.''), h)"
    by (simp add: clear_def g)
  moreover have "extend_fl h x ob = Some (Inl (RuntimeError ''Cannot modify frozen list.''), h)"
    by (simp add: extend_fl_def g)
  moreover have "reverse h x = (Inl (RuntimeError ''Cannot modify frozen list.''), h)"
    by (simp add: reverse_def g)
  moreover have "pop h x i = (Inl (RuntimeError ''Cannot modify frozen list.''), h)"
    by (simp add: pop_def g)
  moreover have "append_fl h x v = (Inl (RuntimeError ''Cannot modify frozen list.''), h)"
    by (simp add: append_fl_def g)
  ultimately show ?thesis by blast
qed

theorem frozen_rejects_mutation_witness:
  "frozen (objs frozen123 ! 0)
    \<and> setitem frozen123 0 1 (PyInt 7) = (Inl (RuntimeError ''Cannot modify frozen list.''), frozen123)
    \<and> setitem_slice frozen123 0 \<lparr>start = Some 0, stop = Some 2, step = None\<rparr> (PyTuple [])
        = (Inl (RuntimeError ''Cannot modify frozen list.''), frozen123)
    \<and> delitem frozen123 0 1 = (Inl (RuntimeError ''Cannot modify frozen list.''), frozen123)
    \<and> delitem_slice frozen123 0 \<lparr>start = Some 0, stop = Some 2, step = None\<rparr>
        = (Inl (RuntimeError ''Cannot modify frozen list.''), frozen123)
    \<and> insert_fl frozen123 0 1 (PyInt 7) = (Inl (RuntimeError ''Cannot modify frozen list.''), frozen123)
    \<and> iadd frozen123 0 (PyTuple []) = Some (Inl (RuntimeError ''Cannot modify frozen list.''), frozen123)
    \<and> sort_fl frozen123 0 None False = (Inl (RuntimeError ''Cannot modify frozen list.''), frozen123)
    \<and> remove_fl 9 frozen123 0 (PyInt 7) = (Inl (RuntimeError ''Cannot modify frozen list.''), frozen123)
    \<and> clear frozen123 0 = (Inl (RuntimeError ''Cannot modify frozen list.''), frozen123)
    \<and> extend_fl frozen123 0 (PyTuple []) = Some (Inl (RuntimeError ''Cannot modify frozen list.''), frozen123)
    \<and> reverse frozen123 0 = (Inl (RuntimeError ''Cannot modify frozen list.''), frozen123)
    \<and> pop frozen123 0 1 = (Inl (RuntimeError ''Cannot modify frozen list.''), frozen123)
    \<and> append_fl frozen123 0 (PyInt 7) = (Inl (RuntimeError ''Cannot modify frozen list.''), frozen123)
    \<and> items_of frozen123 0 = [PyInt 1, PyInt 2, PyInt 3]"
proof -
  have f: "frozen (objs frozen123 ! 0)"
    by (simp add: frozen123_def)
  have i: "items_of frozen123 0 = [PyInt 1, PyInt 2, PyInt 3]"
    by (simp add: frozen123_def items_of_def)
  note r = frozen_rejects_mutation [OF f, where i = 1 and v = "PyInt 7"
      and s = "\<lparr>start = Some 0, stop = Some 2, step = None\<rparr>" and ob = "PyTuple []"
      and key = None and r = False and d = 9]
  from f i r show ?thesis by blast
qed


section \<open>Hashing\<close>

text \<open>
  C3. \<^verbatim>\<open>hash(x)\<close> raises the illegal-state error (\<^verbatim>\<open>RuntimeError\<close>, ``Cannot hash
  unfrozen list.'') when \<open>x\<close> is not frozen. When \<open>x\<close> is frozen it is the hash of
  the tuple of the items of \<open>x\<close>, whatever the hash of tuples is, so two frozen
  instances with the same items have the same hash.
\<close>

theorem hash_frozen_only:
  "(\<not> frozen (objs h ! x) \<longrightarrow>
       hash_fl tuple_hash h x = Inl (RuntimeError ''Cannot hash unfrozen list.''))
   \<and> (frozen (objs h ! x) \<longrightarrow> hash_fl tuple_hash h x = tuple_hash h (items_of h x))
   \<and> (frozen (objs h ! x) \<and> frozen (objs h ! y) \<and> items_of h x = items_of h y \<longrightarrow>
       hash_fl tuple_hash h x = hash_fl tuple_hash h y)"
  by (simp add: hash_fl_def)

theorem hash_frozen_only_witness:
  "\<not> frozen (objs unfrozen312 ! 0)
   \<and> hash_fl sum_hash unfrozen312 0 = Inl (RuntimeError ''Cannot hash unfrozen list.'')
   \<and> frozen (objs two_frozen ! 0) \<and> frozen (objs two_frozen ! 1)
   \<and> items_of two_frozen 0 = items_of two_frozen 1
   \<and> hash_fl sum_hash two_frozen 0 = Inr 3
   \<and> hash_fl sum_hash two_frozen 0 = hash_fl sum_hash two_frozen 1"
proof -
  have u: "\<not> frozen (objs unfrozen312 ! 0)"
    by (simp add: unfrozen312_def)
  have f: "frozen (objs two_frozen ! 0)" "frozen (objs two_frozen ! 1)"
    by (simp_all add: two_frozen_def)
  have i: "items_of two_frozen 0 = [PyInt 1, PyInt 2]" "items_of two_frozen 1 = [PyInt 1, PyInt 2]"
    by (simp_all add: two_frozen_def items_of_def)
  from u hash_frozen_only [of unfrozen312 0 sum_hash]
  have a: "hash_fl sum_hash unfrozen312 0 = Inl (RuntimeError ''Cannot hash unfrozen list.'')"
    by blast
  have e: "items_of two_frozen 0 = items_of two_frozen 1"
    by (simp only: i)
  from f e hash_frozen_only [of two_frozen 0 sum_hash 1]
  have b: "hash_fl sum_hash two_frozen 0 = sum_hash two_frozen (items_of two_frozen 0)"
    and c: "hash_fl sum_hash two_frozen 0 = hash_fl sum_hash two_frozen 1"
    by blast+
  have d: "hash_fl sum_hash two_frozen 0 = Inr 3"
    by (simp add: b i sum_hash_def)
  from u f e a c d show ?thesis by blast
qed


section \<open>pop and append\<close>



lemma list_pop_snoc: "list_pop (xs @ [v]) (- 1) = Inr (v, xs)"
  by (simp add: list_pop_def Let_def nat_add_distrib nth_append)



text \<open>
  C9. On an unfrozen, well-formed instance \<^verbatim>\<open>append(v)\<close> succeeds, and \<^verbatim>\<open>pop()\<close>
  right after it returns \<open>v\<close> and gives back the heap as it was before the two calls:
  the items and their number are restored.
\<close>

theorem append_then_pop:
  assumes "\<not> frozen (objs h ! x)" and "is_instance h x"
  shows "fst (append_fl h x v) = Inr ()
    \<and> items_of (snd (append_fl h x v)) x = items_of h x @ [v]
    \<and> pop_last (snd (append_fl h x v)) x = (Inr v, h)"
proof -
  let ?l = "items (objs h ! x)"
  let ?h1 = "store_list h ?l (items_of h x @ [v])"
  from assms(2) have l: "?l < length (lists h)"
    by (simp add: is_instance_def)
  have ap: "append_fl h x v = (Inr (), ?h1)"
    by (simp add: append_fl_def check_frozen_False [OF assms(1)])
  have o1: "objs ?h1 = objs h"
    by (simp add: store_list_def)
  have i1: "items_of ?h1 x = items_of h x @ [v]"
    using l by (simp add: items_of_def store_list_def)
  have g1: "check_frozen ?h1 x = Inr ()"
    using assms(1) by (simp add: check_frozen_def o1)
  have restore: "store_list ?h1 ?l (items_of h x) = h"
    by (simp add: store_list_def items_of_def)
  have "pop_last ?h1 x = (Inr v, h)"
    by (simp add: pop_last_def pop_def g1 i1 list_pop_snoc o1 restore)
  with ap i1 show ?thesis by simp
qed

theorem append_then_pop_witness:
  "\<not> frozen (objs unfrozen312 ! 0) \<and> is_instance unfrozen312 0
    \<and> items_of (snd (append_fl unfrozen312 0 (PyInt 9))) 0 = [PyInt 3, PyInt 1, PyInt 2, PyInt 9]
    \<and> pop_last (snd (append_fl unfrozen312 0 (PyInt 9))) 0 = (Inr (PyInt 9), unfrozen312)"
proof -
  have u: "\<not> frozen (objs unfrozen312 ! 0)"
    by (simp add: unfrozen312_def)
  have w: "is_instance unfrozen312 0"
    by (simp add: unfrozen312_def is_instance_def)
  have i: "items_of unfrozen312 0 = [PyInt 3, PyInt 1, PyInt 2]"
    by (simp add: unfrozen312_def items_of_def)
  from u w i append_then_pop [OF u w, of "PyInt 9"] show ?thesis by simp
qed

text \<open>
  C10. On a frozen instance the guard comes first: \<^verbatim>\<open>pop\<close> raises the frozen-state
  error for every index and every list, also where the list alone would raise
  \<^verbatim>\<open>IndexError\<close>, and \<^verbatim>\<open>remove\<close> raises it for every item, also where the search
  alone would raise \<^verbatim>\<open>ValueError\<close>.
\<close>

theorem frozen_error_comes_first:
  assumes "frozen (objs h ! x)"
  shows "fst (pop h x i) = Inl (RuntimeError ''Cannot modify frozen list.'')
    \<and> fst (pop h x i) \<noteq> Inl IndexError
    \<and> fst (pop_last h x) = Inl (RuntimeError ''Cannot modify frozen list.'')
    \<and> fst (remove_fl d h x v) = Inl (RuntimeError ''Cannot modify frozen list.'')
    \<and> fst (remove_fl d h x v) \<noteq> Inl ValueError"
  by (simp add: pop_last_def pop_def remove_fl_def check_frozen_True [OF assms])

theorem frozen_error_comes_first_witness:
  "frozen (objs frozen_empty ! 0)
    \<and> list_pop (items_of frozen_empty 0) (- 1) = Inl IndexError
    \<and> list_pop (items_of frozen_empty 0) 5 = Inl IndexError
    \<and> list_remove (RichCompare 9 frozen_empty) (items_of frozen_empty 0) (PyInt 4) = Inl ValueError
    \<and> fst (pop_last frozen_empty 0) = Inl (RuntimeError ''Cannot modify frozen list.'')
    \<and> fst (pop frozen_empty 0 5) = Inl (RuntimeError ''Cannot modify frozen list.'')
    \<and> fst (remove_fl 9 frozen_empty 0 (PyInt 4)) = Inl (RuntimeError ''Cannot modify frozen list.'')"
proof -
  have f: "frozen (objs frozen_empty ! 0)"
    by (simp add: frozen_empty_def)
  have i: "items_of frozen_empty 0 = []"
    by (simp add: frozen_empty_def items_of_def)
  have l: "list_pop (items_of frozen_empty 0) (- 1) = Inl IndexError"
    "list_pop (items_of frozen_empty 0) 5 = Inl IndexError"
    "list_remove (RichCompare 9 frozen_empty) (items_of frozen_empty 0) (PyInt 4) = Inl ValueError"
    by (simp_all add: i list_pop_def list_remove_def)
  from f l frozen_error_comes_first [OF f, of 5 9 "PyInt 4"] show ?thesis by simp
qed


section \<open>Comparison\<close>

lemma RichCompareBool_EQ_refl: "RichCompareBool_EQ rc v v = Inr True"
  by (simp add: RichCompareBool_EQ_def)

lemma first_difference_refl: "first_difference rc Py_EQ vs vs = Inr True"
  by (induction vs) (simp_all add: RichCompareBool_EQ_refl)

lemma list_richcompare_refl: "list_richcompare rc Py_EQ vs vs = Inr True"
  by (simp add: list_richcompare_def first_difference_refl)

lemma RichCompare_ints: "RichCompare (Suc n) h op (PyInt a) (PyInt b) = Inr (int_cmp op a b)"
  by simp

lemma RichCompareBool_EQ_ints:
  "RichCompareBool_EQ (RichCompare (Suc n) h) (PyInt a) (PyInt b) = Inr (a = b)"
  by (simp add: RichCompareBool_EQ_def)

lemma first_difference_ints:
  "first_difference (RichCompare (Suc n) h) op (map PyInt as) (map PyInt bs) = Inr (lex_cmp op as bs)"
proof (induction as arbitrary: bs)
  case Nil
  then show ?case by (cases bs; cases op) auto
next
  case (Cons a as)
  show ?case
  proof (cases bs)
    case Nil
    then show ?thesis by (cases op) auto
  next
    case (Cons b bs')
    then show ?thesis
      using Cons.IH [of bs'] 
      by (cases op; cases "a = b") (auto simp: RichCompareBool_EQ_ints RichCompare_ints simp del: RichCompare.simps)
  qed
qed

lemma list_richcompare_ints:
  "list_richcompare (RichCompare (Suc n) h) op (map PyInt as) (map PyInt bs) = Inr (lex_cmp op as bs)"
  by (cases op) (auto simp: list_richcompare_def first_difference_ints)


lemma items_of_set_frozen: "items_of (set_frozen h x b) y = items_of h y"
  by (simp add: items_of_def items_set_frozen lists_set_frozen)

lemma list_cmp_cong_heap:
  assumes "lists h' = lists h" and "\<And>y. items_of h' y = items_of h y"
  shows "list_cmp rc h' op xs other = list_cmp rc h op xs other"
  by (simp add: list_cmp_def assms split: pyobj.splits val.splits)

lemma RichCompare_cong_heap:
  assumes "lists h' = lists h" and "\<And>y. items_of h' y = items_of h y"
  shows "RichCompare n h' = RichCompare n h"
proof (induction n)
  case 0
  show ?case by (intro ext) simp
next
  case (Suc n)
  show ?case
    by (intro ext) (simp add: Suc assms list_cmp_cong_heap [OF assms] split: val.splits)
qed

lemma richcmp_cong_heap:
  assumes "lists h' = lists h" and "\<And>y. items_of h' y = items_of h y"
  shows "richcmp d h' x other op = richcmp d h x other op"
  by (simp add: richcmp_def RichCompare_cong_heap [OF assms] list_cmp_cong_heap [OF assms] assms)

lemma richcmp_op_code:
  "richcmp d h x other (op_code op) = map_sum id Some (list_cmp (RichCompare d h) h op (items_of h x) other)"
  by (cases op) (simp_all add: richcmp_def)

lemma lex_cmp_swapped: "lex_cmp (swapped op) bs as = lex_cmp op as bs"
  by (cases op) auto

text \<open>
  C7 as amended. Against a plain list and against another \<^verbatim>\<open>FrozenList\<close>, each of
  the six operators is the comparison of two lists, of the items of \<open>x\<close> and the items
  of the other side: the first pair of unequal items decides, or the lengths. Against a
  tuple no items are compared: \<^verbatim>\<open>==\<close> is false, \<^verbatim>\<open>!=\<close> is true and an ordering raises
  \<^verbatim>\<open>TypeError\<close>. Setting
  the frozen flag of any instance to any value changes no comparison. On items that are
  integers the result is the lexicographic order of the two item sequences.
\<close>

theorem richcmp_by_items:
  "richcmp d h x (Val (ListRef m)) (op_code op)
      = map_sum id Some (list_richcompare (RichCompare d h) op (items_of h x) (lists h ! m))
   \<and> richcmp d h x (Val (FLRef y)) (op_code op)
      = map_sum id Some (list_richcompare (RichCompare d h) (swapped op) (items_of h y) (items_of h x))
   \<and> richcmp d h x (PyTuple ts) (op_code op) = map_sum id Some (default_cmp op False)
   \<and> richcmp d (set_frozen h z b) x other k = richcmp d h x other k
   \<and> (items_of h x = map PyInt as \<and> lists h ! m = map PyInt bs \<longrightarrow>
        richcmp (Suc d) h x (Val (ListRef m)) (op_code op) = Inr (Some (lex_cmp op as bs)))
   \<and> (items_of h x = map PyInt as \<and> items_of h y = map PyInt bs \<longrightarrow>
        richcmp (Suc d) h x (Val (FLRef y)) (op_code op) = Inr (Some (lex_cmp op as bs)))"
proof -
  have a: "richcmp d h x (Val (ListRef m)) (op_code op)
      = map_sum id Some (list_richcompare (RichCompare d h) op (items_of h x) (lists h ! m))"
    by (simp add: richcmp_op_code list_cmp_def)
  have b: "richcmp d h x (Val (FLRef y)) (op_code op)
      = map_sum id Some (list_richcompare (RichCompare d h) (swapped op) (items_of h y) (items_of h x))"
    by (simp add: richcmp_op_code list_cmp_def)
  have t: "richcmp d h x (PyTuple ts) (op_code op) = map_sum id Some (default_cmp op False)"
    by (simp add: richcmp_op_code list_cmp_def)
  have c: "richcmp d (set_frozen h z b) x other k = richcmp d h x other k"
    by (rule richcmp_cong_heap) (simp_all add: lists_set_frozen items_of_set_frozen)
  have d: "richcmp (Suc d) h x (Val (ListRef m)) (op_code op) = Inr (Some (lex_cmp op as bs))"
    if "items_of h x = map PyInt as" "lists h ! m = map PyInt bs"
    using that by (simp add: richcmp_op_code list_cmp_def list_richcompare_ints del: RichCompare.simps)
  have e: "richcmp (Suc d) h x (Val (FLRef y)) (op_code op) = Inr (Some (lex_cmp op as bs))"
    if "items_of h x = map PyInt as" "items_of h y = map PyInt bs"
    using that by (simp add: richcmp_op_code list_cmp_def list_richcompare_ints lex_cmp_swapped del: RichCompare.simps)
  from a b t c d e show ?thesis by blast
qed

theorem richcmp_by_items_witness:
  "items_of pair_12_13 0 = map PyInt [1, 2] \<and> lists pair_12_13 ! 1 = map PyInt [1, 3]
   \<and> items_of pair_12_13 1 = map PyInt [1, 3]
   \<and> richcmp (Suc 8) pair_12_13 0 (Val (ListRef 1)) 0 = Inr (Some True)
   \<and> richcmp (Suc 8) pair_12_13 0 (Val (FLRef 1)) 2 = Inr (Some False)
   \<and> richcmp (Suc 8) pair_12_13 0 (Val (FLRef 1)) 5 = Inr (Some False)"
proof -
  have i: "items_of pair_12_13 0 = map PyInt [1, 2]" "lists pair_12_13 ! 1 = map PyInt [1, 3]"
    "items_of pair_12_13 1 = map PyInt [1, 3]"
    by (simp_all add: pair_12_13_def items_of_def)
  from i richcmp_by_items [where d = 8 and h = pair_12_13 and x = 0 and m = 1 and op = Py_LT
      and y = 1 and as = "[1, 2]" and bs = "[1, 3]"]
  have a: "richcmp (Suc 8) pair_12_13 0 (Val (ListRef 1)) (op_code Py_LT) = Inr (Some (lex_cmp Py_LT [1, 2] [1, 3]))"
    by blast
  from i richcmp_by_items [where d = 8 and h = pair_12_13 and x = 0 and m = 1 and op = Py_EQ
      and y = 1 and as = "[1, 2]" and bs = "[1, 3]"]
  have b: "richcmp (Suc 8) pair_12_13 0 (Val (FLRef 1)) (op_code Py_EQ) = Inr (Some (lex_cmp Py_EQ [1, 2] [1, 3]))"
    by blast
  from i richcmp_by_items [where d = 8 and h = pair_12_13 and x = 0 and m = 1 and op = Py_GE
      and y = 1 and as = "[1, 2]" and bs = "[1, 3]"]
  have c: "richcmp (Suc 8) pair_12_13 0 (Val (FLRef 1)) (op_code Py_GE) = Inr (Some (lex_cmp Py_GE [1, 2] [1, 3]))"
    by blast
  from i a b c show ?thesis by simp
qed

text \<open>
  C7 as stated fails for an ordered sequence that is not a list: the instance holding 1
  is not equal to the tuple \<^verbatim>\<open>(1,)\<close>, though the two hold the same items, and asking
  whether it is below the tuple \<^verbatim>\<open>(2,)\<close> raises \<^verbatim>\<open>TypeError\<close>.
\<close>

theorem richcmp_tuple_counterexample:
  "items_of unfrozen1 0 = [PyInt 1]
   \<and> lex_cmp Py_EQ [1] [1]
   \<and> richcmp 9 unfrozen1 0 (PyTuple [PyInt 1]) (op_code Py_EQ) = Inr (Some False)
   \<and> lex_cmp Py_LT [1] [2]
   \<and> richcmp 9 unfrozen1 0 (PyTuple [PyInt 2]) (op_code Py_LT) = Inl TypeError"
  by (simp add: unfrozen1_def items_of_def richcmp_def list_cmp_def)


section \<open>Construction\<close>

lemma elements_not_None: "elements h src = Inr vs \<Longrightarrow> src \<noteq> Val PyNone"
  by (auto simp: elements_def)

lemma init_source:
  assumes "elements h src = Inr vs"
  shows "init h src = Inr (length (objs h),
      \<lparr>lists = lists h @ [vs], objs = objs h @ [\<lparr>frozen = False, items = length (lists h)\<rparr>]\<rparr>)"
  using assms elements_not_None [OF assms]
  by (simp add: init_def PySequence_List_def PyList_New_def)

lemma elements_grow:
  assumes "elements h src = Inr vs" and "allocated h src"
    and "lists h1 = lists h @ ls" and "objs h1 = objs h @ os"
  shows "elements h1 src = Inr vs"
  using assms
  by (auto simp: elements_def allocated_def is_instance_def items_of_def nth_append
      split: pyobj.splits val.splits)

text \<open>
  C6. From a source \<open>S\<close> that exists in the heap and can be iterated, the constructor
  makes a new unfrozen instance whose items are those of \<open>S\<close>. For every \<open>S\<close> the
  instance compares equal to \<^verbatim>\<open>list(S)\<close>, the items of \<open>S\<close> as a plain list; it
  compares equal to \<open>S\<close> itself when \<open>S\<close> is a list or a \<^verbatim>\<open>FrozenList\<close>, and not
  when \<open>S\<close> is a tuple, which equals no list. Its items are
  in a list object of its own: writing anything into a list object that was there
  before the call (\<open>S\<close> itself, or the \<^verbatim>\<open>_items\<close> of \<open>S\<close>) leaves them as they are.
\<close>

theorem init_copies_source:
  assumes "elements h src = Inr vs" and "allocated h src"
  shows "(case init h src of
            Inl e \<Rightarrow> False
          | Inr (x, h1) \<Rightarrow>
              x = length (objs h) \<and> \<not> frozen (objs h1 ! x) \<and> items_of h1 x = vs
              \<and> (case src of
                    PyTuple ts \<Rightarrow> richcmp d h1 x src 2 = Inr (Some False)
                  | Val s \<Rightarrow> richcmp d h1 x src 2 = Inr (Some True))
              \<and> (case PySequence_List h1 src of
                    Inl e \<Rightarrow> False
                  | Inr (l, h2) \<Rightarrow> richcmp d h2 x (Val (ListRef l)) 2 = Inr (Some True))
              \<and> (\<forall>l ys. l < length (lists h) \<longrightarrow> items_of (store_list h1 l ys) x = vs))"
proof -
  let ?x = "length (objs h)"
  let ?h1 = "\<lparr>lists = lists h @ [vs], objs = objs h @ [\<lparr>frozen = False, items = length (lists h)\<rparr>]\<rparr>"
  have i: "init h src = Inr (?x, ?h1)"
    by (rule init_source [OF assms(1)])
  have f: "\<not> frozen (objs ?h1 ! ?x)"
    by simp
  have it: "items_of ?h1 ?x = vs"
    by (simp add: items_of_def)
  have e1: "elements ?h1 src = Inr vs"
    by (rule elements_grow [OF assms]) simp_all
  have eq: "richcmp d ?h1 ?x src 2 = Inr (Some True)" if "src = Val s" for s
  proof (cases s)
    case (ListRef m)
    with e1 that have "lists ?h1 ! m = vs"
      by (simp add: elements_def)
    with that ListRef it show ?thesis
      by (simp add: richcmp_def list_cmp_def list_richcompare_refl del: RichCompare.simps)
  next
    case (FLRef y)
    with e1 that have "items_of ?h1 y = vs"
      by (simp add: elements_def)
    with that FLRef it show ?thesis
      by (simp add: richcmp_def list_cmp_def list_richcompare_refl del: RichCompare.simps)
  qed (use assms(1) that in \<open>simp_all add: elements_def\<close>)
  let ?h2 = "?h1\<lparr>lists := lists ?h1 @ [vs]\<rparr>"
  have p: "PySequence_List ?h1 src = Inr (Suc (length (lists h)), ?h2)"
    by (simp add: PySequence_List_def e1 PyList_New_def)
  have "items_of ?h2 ?x = vs" "lists ?h2 ! Suc (length (lists h)) = vs"
    by (simp_all add: items_of_def nth_append)
  then have eq2: "richcmp d ?h2 ?x (Val (ListRef (Suc (length (lists h))))) 2 = Inr (Some True)"
    by (simp add: richcmp_def list_cmp_def list_richcompare_refl del: RichCompare.simps)
  have mut: "items_of (store_list ?h1 l ys) ?x = vs" if "l < length (lists h)" for l ys
    using that by (simp add: items_of_def store_list_def nth_append)
  have tup: "richcmp d ?h1 ?x src 2 = Inr (Some False)" if "src = PyTuple ts" for ts
    using that by (simp add: richcmp_def list_cmp_def)
  show ?thesis
    unfolding i using f it eq eq2 mut tup
    by (simp add: p split: pyobj.splits del: RichCompare.simps)
qed

theorem init_copies_source_witness:
  "elements one_list (Val (ListRef 0)) = Inr [PyInt 1, PyInt 2]
   \<and> allocated one_list (Val (ListRef 0))
   \<and> init one_list (Val (ListRef 0))
       = Inr (0, \<lparr>lists = [[PyInt 1, PyInt 2], [PyInt 1, PyInt 2]], objs = [\<lparr>frozen = False, items = 1\<rparr>]\<rparr>)
   \<and> richcmp 9 \<lparr>lists = [[PyInt 1, PyInt 2], [PyInt 1, PyInt 2]], objs = [\<lparr>frozen = False, items = 1\<rparr>]\<rparr>
        0 (Val (ListRef 0)) 2 = Inr (Some True)
   \<and> items_of (store_list \<lparr>lists = [[PyInt 1, PyInt 2], [PyInt 1, PyInt 2]], objs = [\<lparr>frozen = False, items = 1\<rparr>]\<rparr> 0 [PyInt 5]) 0
       = [PyInt 1, PyInt 2]"
proof -
  let ?h1 = "\<lparr>lists = [[PyInt 1, PyInt 2], [PyInt 1, PyInt 2]], objs = [\<lparr>frozen = False, items = 1\<rparr>]\<rparr>"
  have e: "elements one_list (Val (ListRef 0)) = Inr [PyInt 1, PyInt 2]"
    by (simp add: elements_def one_list_def)
  have a: "allocated one_list (Val (ListRef 0))"
    by (simp add: allocated_def one_list_def)
  have i: "init one_list (Val (ListRef 0)) = Inr (0, ?h1)"
    by (simp add: init_def PySequence_List_def PyList_New_def elements_def one_list_def)
  have l: "length (lists one_list) = 1"
    by (simp add: one_list_def)
  from init_copies_source [OF e a, of 9]
  have "richcmp 9 ?h1 0 (Val (ListRef 0)) 2 = Inr (Some True)
      \<and> (\<forall>l ys. l < length (lists one_list) \<longrightarrow> items_of (store_list ?h1 l ys) 0 = [PyInt 1, PyInt 2])"
    unfolding i by (simp del: RichCompare.simps)
  with e a i l show ?thesis by simp
qed


section \<open>Sorting\<close>

text \<open>
  C5, at the input of the specification's scenario: on the unfrozen instance made from
  \<^verbatim>\<open>[3, 1, 2]\<close>, \<^verbatim>\<open>x.sort()\<close> raises \<^verbatim>\<open>TypeError\<close> and the items stay 3, 1, 2,
  because \<^verbatim>\<open>sort\<close> passes \<^verbatim>\<open>key\<close> and \<^verbatim>\<open>reverse\<close> to \<^verbatim>\<open>list.sort\<close> by position
  and \<^verbatim>\<open>list.sort\<close> takes them by keyword only. Called with no positional argument,
  \<^verbatim>\<open>list.sort\<close> gives 1, 2, 3.
\<close>

theorem sort_raises_TypeError:
  "\<not> frozen (objs unfrozen312 ! 0)
   \<and> items_of unfrozen312 0 = [PyInt 3, PyInt 1, PyInt 2]
   \<and> sort_fl unfrozen312 0 None False = (Inl TypeError, unfrozen312)
   \<and> list_sort [PyInt 3, PyInt 1, PyInt 2] [] None False = Inr [PyInt 1, PyInt 2, PyInt 3]"
  by (simp add: unfrozen312_def items_of_def sort_fl_def check_frozen_def list_sort_def
      stable_sort_def)


text \<open>
  The same holds of every unfrozen instance, whatever the key and the flag: the call
  raises \<^verbatim>\<open>TypeError\<close> and the heap is as it was.
\<close>

lemma sort_fl_unfrozen:
  "\<not> frozen (objs h ! x) \<Longrightarrow> sort_fl h x key r = (Inl TypeError, h)"
  by (simp add: sort_fl_def check_frozen_def list_sort_def)


section \<open>Correctness of the deep copy\<close>

lemma extends_refl: "extends h h"
  by (simp add: extends_def)

lemma extends_trans: "extends h1 h2 \<Longrightarrow> extends h2 h3 \<Longrightarrow> extends h1 h3"
  by (auto simp: extends_def)

lemma finite_nodes: "finite (nodes h)"
  by (simp add: nodes_def)

lemma nodes_iff: "v \<in> nodes h \<longleftrightarrow> is_ref v \<and> valid h v"
  by (cases v) (auto simp: nodes_def)

lemma copy_shape_ref: "copy_shape h0 h k v \<Longrightarrow> is_ref k \<and> is_ref v \<and> valid h0 k \<and> valid h v"
  by (cases k; cases v) auto

lemma copy_shape_new: "copy_shape h0 h k v \<Longrightarrow> length (lists h0) \<le> cell h v \<and> cell h v < length (lists h)"
  by (cases k; cases v) auto

lemma copy_shape_extends:
  "copy_shape h0 h k v \<Longrightarrow> extends h h' \<Longrightarrow> copy_shape h0 h' k v"
  by (cases k; cases v) (auto simp: extends_def)

lemma cell_extends: "valid h v \<Longrightarrow> extends h h' \<Longrightarrow> cell h' v = cell h v"
  by (cases v) (auto simp: extends_def)

lemma same_flag_extends: "valid h v \<Longrightarrow> extends h h' \<Longrightarrow> same_flag h0 h' k v = same_flag h0 h k v"
  by (cases k; cases v) (auto simp: extends_def)

lemma rename_atom: "\<not> is_ref v \<Longrightarrow> (\<And>k y. m k = Some y \<Longrightarrow> is_ref k) \<Longrightarrow> rename m v = v"
  by (auto simp: rename_def split: option.splits)

lemma rename_mono: "m \<subseteq>\<^sub>m m' \<Longrightarrow> v \<in> dom m \<Longrightarrow> rename m' v = rename m v"
  by (auto simp: rename_def map_le_def dom_def split: option.splits)

lemma INV_extends: "INV h0 h m S \<Longrightarrow> extends h0 h"
  unfolding INV_def by blast

lemma INV_shape: "INV h0 h m S \<Longrightarrow> m k = Some v \<Longrightarrow> copy_shape h0 h k v"
  unfolding INV_def by blast

lemma INV_inj: "INV h0 h m S \<Longrightarrow> m k = Some v \<Longrightarrow> m k' = Some v' \<Longrightarrow> cell h v = cell h v' \<Longrightarrow> k = k'"
  unfolding INV_def by blast

lemma INV_complete: "INV h0 h m S \<Longrightarrow> m k = Some v \<Longrightarrow> k \<notin> S \<Longrightarrow> complete h0 h m k v"
  unfolding INV_def by blast

lemma INV_I:
  assumes "extends h0 h"
    and "\<And>k v. m k = Some v \<Longrightarrow> copy_shape h0 h k v"
    and "\<And>k k' v v'. m k = Some v \<Longrightarrow> m k' = Some v' \<Longrightarrow> cell h v = cell h v' \<Longrightarrow> k = k'"
    and "\<And>k v. m k = Some v \<Longrightarrow> k \<notin> S \<Longrightarrow> complete h0 h m k v"
  shows "INV h0 h m S"
  unfolding INV_def using assms by blast

lemma INV_dom_ref: "INV h0 h m S \<Longrightarrow> m k = Some y \<Longrightarrow> is_ref k"
  using copy_shape_ref INV_shape by blast

lemma rename_stable:
  assumes "INV h0 h' m' S" and "m \<subseteq>\<^sub>m m'" and "is_ref v \<longrightarrow> v \<in> dom m"
  shows "rename m' v = rename m v"
proof (cases "v \<in> dom m")
  case True
  then show ?thesis by (rule rename_mono [OF assms(2)])
next
  case False
  with assms(3) have nr: "\<not> is_ref v" by blast
  then have "v \<notin> dom m'" using INV_dom_ref [OF assms(1)] by auto
  with False show ?thesis by (auto simp: rename_def split: option.splits)
qed

lemma dc_okD:
  "dc_ok h0 dc n \<Longrightarrow> INV h0 h m S \<Longrightarrow> S \<subseteq> dom m \<Longrightarrow> valid h0 x \<Longrightarrow> card (nodes h0 - dom m) < n
    \<Longrightarrow> copied_ok h0 S x h m (dc x h m)"
  unfolding dc_ok_def by blast

lemma card_unvisited_mono:
  assumes "m \<subseteq>\<^sub>m m'"
  shows "card (nodes h0 - dom m') \<le> card (nodes h0 - dom m)"
proof -
  from assms have "dom m \<subseteq> dom m'" by (rule map_le_implies_dom_le)
  then have "nodes h0 - dom m' \<subseteq> nodes h0 - dom m" by blast
  then show ?thesis by (intro card_mono) (simp_all add: finite_nodes)
qed

lemma map_le_dom: "m \<subseteq>\<^sub>m m' \<Longrightarrow> v \<in> dom m \<Longrightarrow> v \<in> dom m'"
  using map_le_implies_dom_le by blast

lemma copied_okI:
  "r = Some (Inr y, h', m') \<Longrightarrow> extends h h' \<Longrightarrow> m \<subseteq>\<^sub>m m' \<Longrightarrow> INV h0 h' m' S
    \<Longrightarrow> y = rename m' x \<Longrightarrow> (is_ref x \<Longrightarrow> x \<in> dom m') \<Longrightarrow> copied_ok h0 S x h m r"
  unfolding copied_ok_def by blast

lemma items_okI:
  "r = Some (Inr ys, h', m') \<Longrightarrow> extends h h' \<Longrightarrow> m \<subseteq>\<^sub>m m' \<Longrightarrow> INV h0 h' m' S
    \<Longrightarrow> ys = map (rename m') vs \<Longrightarrow> (\<forall>v\<in>set vs. is_ref v \<longrightarrow> v \<in> dom m') \<Longrightarrow> items_ok h0 S vs h m r"
  unfolding items_ok_def by blast

lemma copy_items_ok:
  assumes dc: "dc_ok h0 dc n"
  shows "INV h0 h m S \<Longrightarrow> S \<subseteq> dom m \<Longrightarrow> \<forall>v\<in>set vs. valid h0 v \<Longrightarrow> card (nodes h0 - dom m) < n
    \<Longrightarrow> items_ok h0 S vs h m (copy_items dc vs h m)"
proof (induction vs arbitrary: h m)
  case Nil
  then show ?case by (simp add: items_ok_def extends_refl)
next
  case (Cons v vs)
  from Cons.prems have "valid h0 v" by simp
  from dc_okD [OF dc Cons.prems(1,2) this Cons.prems(4)]
  obtain y h1 m1 where r1: "dc v h m = Some (Inr y, h1, m1)" and e1: "extends h h1"
    and le1: "m \<subseteq>\<^sub>m m1" and inv1: "INV h0 h1 m1 S" and y: "y = rename m1 v"
    and d1: "is_ref v \<longrightarrow> v \<in> dom m1"
    unfolding copied_ok_def by blast
  have S1: "S \<subseteq> dom m1" using Cons.prems(2) map_le_implies_dom_le [OF le1] by blast
  have c1: "card (nodes h0 - dom m1) < n"
    using card_unvisited_mono [OF le1, of h0] Cons.prems(4) by simp
  from Cons.prems(3) have vs: "\<forall>v\<in>set vs. valid h0 v" by simp
  from Cons.IH [OF inv1 S1 vs c1]
  obtain ys h2 m2 where r2: "copy_items dc vs h1 m1 = Some (Inr ys, h2, m2)" and e2: "extends h1 h2"
    and le2: "m1 \<subseteq>\<^sub>m m2" and inv2: "INV h0 h2 m2 S" and ys: "ys = map (rename m2) vs"
    and d2: "\<forall>v\<in>set vs. is_ref v \<longrightarrow> v \<in> dom m2"
    unfolding items_ok_def by blast
  have "rename m2 v = rename m1 v"
    by (rule rename_stable [OF inv2 le2 d1])
  with y have y2: "y = rename m2 v" by simp
  have dv: "is_ref v \<longrightarrow> v \<in> dom m2" using d1 map_le_dom [OF le2] by blast
  show ?case
  proof (rule items_okI)
    show "copy_items dc (v # vs) h m = Some (Inr (y # ys), h2, m2)"
      by (simp add: r1 r2)
    show "extends h h2" by (rule extends_trans [OF e1 e2])
    show "m \<subseteq>\<^sub>m m2" by (rule map_le_trans [OF le1 le2])
    show "INV h0 h2 m2 S" by (rule inv2)
    show "y # ys = map (rename m2) (v # vs)" using y2 ys by simp
    show "\<forall>u\<in>set (v # vs). is_ref u \<longrightarrow> u \<in> dom m2" using dv d2 by simp
  qed
qed

lemma complete_cong:
  assumes "complete h0 h m k v"
    and "lists h' ! cell h' v = lists h ! cell h v"
    and "same_flag h0 h' k v = same_flag h0 h k v"
    and "\<And>u. u \<in> set (children h0 k) \<Longrightarrow> rename m' u = rename m u"
    and "dom m \<subseteq> dom m'"
  shows "complete h0 h' m' k v"
proof -
  from assms(1) have a: "lists h ! cell h v = map (rename m) (children h0 k)"
    and b: "\<forall>u\<in>set (children h0 k). is_ref u \<longrightarrow> u \<in> dom m"
    and c: "same_flag h0 h k v"
    unfolding complete_def by blast+
  have "map (rename m') (children h0 k) = map (rename m) (children h0 k)"
    using assms(4) by (intro map_cong) simp_all
  with a assms(2) have "lists h' ! cell h' v = map (rename m') (children h0 k)" by simp
  moreover from b assms(5) have "\<forall>u\<in>set (children h0 k). is_ref u \<longrightarrow> u \<in> dom m'" by blast
  moreover from c assms(3) have "same_flag h0 h' k v" by simp
  ultimately show ?thesis unfolding complete_def by blast
qed

lemma INV_register:
  assumes inv: "INV h0 h m S" and none: "m x = None" and ext: "extends h h1"
    and shape: "copy_shape h0 h1 x v" and new: "length (lists h) \<le> cell h1 v"
  shows "INV h0 h1 (m(x \<mapsto> v)) (insert x S)"
proof (rule INV_I)
  show "extends h0 h1"
    by (rule extends_trans [OF INV_extends [OF inv] ext])
next
  fix k v' assume "(m(x \<mapsto> v)) k = Some v'"
  then show "copy_shape h0 h1 k v'"
    using shape copy_shape_extends [OF INV_shape [OF inv] ext] by (auto split: if_splits)
next
  have old: "cell h1 v' = cell h v' \<and> cell h v' < length (lists h)" if "m k = Some v'" for k v'
    using copy_shape_ref [OF INV_shape [OF inv that]] copy_shape_new [OF INV_shape [OF inv that]]
      cell_extends [OF _ ext] by simp
  fix k k' v' v'' assume "(m(x \<mapsto> v)) k = Some v'" "(m(x \<mapsto> v)) k' = Some v''" "cell h1 v' = cell h1 v''"
  then show "k = k'"
    using old new INV_inj [OF inv] by (fastforce split: if_splits)
next
  fix k v' assume k: "(m(x \<mapsto> v)) k = Some v'" "k \<notin> insert x S"
  then have mk: "m k = Some v'" and kS: "k \<notin> S" by (auto split: if_splits)
  note c = INV_complete [OF inv mk kS]
  have xr: "is_ref x" using copy_shape_ref [OF shape] by simp
  have sh: "copy_shape h0 h k v'" by (rule INV_shape [OF inv mk])
  have cl: "cell h1 v' = cell h v'" "cell h v' < length (lists h)"
    using copy_shape_ref [OF sh] copy_shape_new [OF sh] cell_extends [OF _ ext] by simp_all
  show "complete h0 h1 (m(x \<mapsto> v)) k v'"
  proof (rule complete_cong [OF c])
    show "lists h1 ! cell h1 v' = lists h ! cell h v'"
      using cl ext by (simp add: extends_def)
    show "same_flag h0 h1 k v' = same_flag h0 h k v'"
      using copy_shape_ref [OF sh] by (intro same_flag_extends [OF _ ext]) simp
    show "rename (m(x \<mapsto> v)) u = rename m u" if "u \<in> set (children h0 k)" for u
    proof -
      from c that have "is_ref u \<longrightarrow> u \<in> dom m" by (simp add: complete_def)
      with none xr have "u \<noteq> x" by auto
      then show ?thesis by (simp add: rename_def)
    qed
    show "dom m \<subseteq> dom (m(x \<mapsto> v))" by auto
  qed
qed

lemma touches_cell: "touches h v h' \<Longrightarrow> cell h' u = cell h u"
  by (cases u) (simp_all add: touches_def)

lemma copy_shape_touches: "copy_shape h0 h k u \<Longrightarrow> touches h v h' \<Longrightarrow> copy_shape h0 h' k u"
  by (cases k; cases u) (simp_all add: touches_def)

lemma touches_extends:
  assumes "touches h v h'" and "copy_shape h0 h x v" and "extends h0 h"
  shows "extends h0 h'"
proof -
  from assms(2) have c: "length (lists h0) \<le> cell h v" by (rule copy_shape_new [THEN conjunct1])
  have o: "FLRef c \<noteq> v" if "c < length (objs h0)" for c
    using assms(2) that by (cases x; cases v) auto
  show ?thesis
    using assms(1,3) c o unfolding extends_def touches_def
    by (metis leD)
qed

lemma INV_touches:
  assumes inv: "INV h0 h m S" and mx: "m x = Some v" and xS: "x \<in> S" and t: "touches h v h'"
  shows "INV h0 h' m S"
proof (rule INV_I)
  show "extends h0 h'"
    by (rule touches_extends [OF t INV_shape [OF inv mx] INV_extends [OF inv]])
next
  fix k u assume "m k = Some u"
  then show "copy_shape h0 h' k u"
    using copy_shape_touches [OF INV_shape [OF inv] t] by blast
next
  fix k k' u u' assume "m k = Some u" "m k' = Some u'" "cell h' u = cell h' u'"
  then show "k = k'"
    using INV_inj [OF inv] by (simp add: touches_cell [OF t])
next
  fix k u assume mk: "m k = Some u" and kS: "k \<notin> S"
  with xS have kx: "k \<noteq> x" by blast
  have cu: "cell h u \<noteq> cell h v"
    using INV_inj [OF inv mk mx] kx by blast
  have uv: "u \<noteq> v" using cu by blast
  show "complete h0 h' m k u"
  proof (rule complete_cong [OF INV_complete [OF inv mk kS]])
    show "lists h' ! cell h' u = lists h ! cell h u"
      using t cu by (simp add: touches_cell [OF t]) (simp add: touches_def)
    show "same_flag h0 h' k u = same_flag h0 h k u"
      using t uv by (cases k; cases u) (auto simp: touches_def)
  qed simp_all
qed

lemma INV_done:
  assumes inv: "INV h0 h m (insert x S)" and mx: "m x = Some v" and c: "complete h0 h m x v"
  shows "INV h0 h m S"
proof (rule INV_I)
  fix k u assume "m k = Some u" "k \<notin> S"
  then show "complete h0 h m k u"
    using INV_complete [OF inv, of k u] c mx by (cases "k = x") auto
qed (use inv INV_extends INV_shape INV_inj in blast)+

lemma new_instance:
  "PyList_New h [] = (e, h0') \<Longrightarrow> init h0' (Val (ListRef e)) = Inr (length (objs h), alloc_fl h)"
  by (auto simp: PyList_New_def init_def PySequence_List_def elements_def alloc_fl_def)

lemma extends_alloc_fl: "extends h (alloc_fl h)"
  by (simp add: extends_def alloc_fl_def nth_append)

lemma wf_heap_items: "wf_heap h \<Longrightarrow> a < length (objs h) \<Longrightarrow> items (objs h ! a) < length (lists h)"
  by (simp add: wf_heap_def list_all_length)

lemma wf_heap_valid: "wf_heap h \<Longrightarrow> l < length (lists h) \<Longrightarrow> v \<in> set (lists h ! l) \<Longrightarrow> valid h v"
  by (simp add: wf_heap_def list_all_length) (metis in_set_conv_nth)

lemma wf_heap_children: "wf_heap h \<Longrightarrow> valid h k \<Longrightarrow> v \<in> set (children h k) \<Longrightarrow> valid h v"
proof (cases k)
  case (FLRef a)
  assume w: "wf_heap h" and "valid h k" and v: "v \<in> set (children h k)"
  with FLRef have "items (objs h ! a) < length (lists h)" by (simp add: wf_heap_items)
  with w v FLRef show ?thesis by (auto simp: items_of_def intro: wf_heap_valid)
qed (auto intro: wf_heap_valid)

lemma children_extends:
  assumes "wf_heap h0" and "valid h0 k" and "extends h0 h"
  shows "children h k = children h0 k"
  using assms wf_heap_items [OF assms(1)]
  by (cases k) (auto simp: extends_def items_of_def)

lemma card_unvisited_insert:
  assumes "x \<in> nodes h0" and "x \<notin> dom m" and "card (nodes h0 - dom m) < Suc n"
  shows "card (nodes h0 - dom (m(x \<mapsto> v))) < n"
proof -
  have "nodes h0 - dom (m(x \<mapsto> v)) = (nodes h0 - dom m) - {x}" by auto
  moreover have "x \<in> nodes h0 - dom m" using assms by simp
  ultimately have "card (nodes h0 - dom (m(x \<mapsto> v))) = card (nodes h0 - dom m) - 1"
    by (simp add: finite_nodes)
  moreover have "0 < card (nodes h0 - dom m)"
    using \<open>x \<in> nodes h0 - dom m\<close> finite_nodes [of h0] by (metis card_gt_0_iff empty_iff finite_Diff)
  ultimately show ?thesis using assms(3) by simp
qed

lemma deepcopy_fl_unfold:
  assumes "m (FLRef a) = None"
  shows "deepcopy_fl dc h a m =
     (case copy_items dc (items_of (alloc_fl h) a) (alloc_fl h) (m(FLRef a \<mapsto> FLRef (length (objs h)))) of
        None \<Rightarrow> None
      | Some (Inl err, h2, m2) \<Rightarrow> Some (Inl err, h2, m2)
      | Some (Inr vs, h2, m2) \<Rightarrow> Some (Inr (FLRef (length (objs h))), finish_fl h2 a (length (objs h)) vs, m2))"
proof -
  obtain e h0' where p: "PyList_New h [] = (e, h0')" by (cases "PyList_New h []")
  show ?thesis
    unfolding deepcopy_fl_def finish_fl_def
    by (simp add: assms p new_instance [OF p] Let_def split: option.splits sum.splits prod.splits)
qed

lemma touches_finish_fl:
  assumes "items (objs h2 ! c) = l"
  shows "touches h2 (FLRef c) (finish_fl h2 a c vs)"
  using assms
  by (auto simp: touches_def finish_fl_def Let_def store_list_def freeze_set_frozen
      items_set_frozen lists_set_frozen length_objs_set_frozen objs_set_frozen_other)

lemma deepcopy_fl_ok:
  assumes dc: "dc_ok h0 dc n" and wf: "wf_heap h0" and inv: "INV h0 h m S" and S: "S \<subseteq> dom m"
    and a: "a < length (objs h0)" and none: "m (FLRef a) = None"
    and card: "card (nodes h0 - dom m) < Suc n"
  shows "copied_ok h0 S (FLRef a) h m (deepcopy_fl dc h a m)"
proof -
  let ?x = "FLRef a"
  let ?c = "length (objs h)"
  let ?h1 = "alloc_fl h"
  let ?m1 = "m(?x \<mapsto> FLRef ?c)"
  let ?l = "Suc (length (lists h))"
  have e0: "extends h0 h" by (rule INV_extends [OF inv])
  have e1: "extends h ?h1" by (rule extends_alloc_fl)
  have e01: "extends h0 ?h1" by (rule extends_trans [OF e0 e1])
  have xv: "valid h0 ?x" using a by simp
  have xn: "?x \<in> nodes h0" using a by (simp add: nodes_iff)
  have xS: "?x \<notin> S" using S none by auto
  have shape: "copy_shape h0 ?h1 ?x (FLRef ?c)"
    using a e0 by (simp add: alloc_fl_def extends_def nth_append)
  have new: "length (lists h) \<le> cell ?h1 (FLRef ?c)"
    by (simp add: alloc_fl_def)
  have inv1: "INV h0 ?h1 ?m1 (insert ?x S)"
    by (rule INV_register [OF inv none e1 shape new])
  have S1: "insert ?x S \<subseteq> dom ?m1" using S by auto
  have ch: "items_of ?h1 a = children h0 ?x"
    using children_extends [OF wf xv e01] by simp
  have vs: "\<forall>v\<in>set (children h0 ?x). valid h0 v"
    using wf_heap_children [OF wf xv] by blast
  have c1: "card (nodes h0 - dom ?m1) < n"
    using none by (intro card_unvisited_insert [OF xn _ card]) auto
  from copy_items_ok [OF dc inv1 S1 vs c1]
  obtain ys h2 m2 where r: "copy_items dc (children h0 ?x) ?h1 ?m1 = Some (Inr ys, h2, m2)"
    and e2: "extends ?h1 h2" and le2: "?m1 \<subseteq>\<^sub>m m2" and inv2: "INV h0 h2 m2 (insert ?x S)"
    and ys: "ys = map (rename m2) (children h0 ?x)"
    and d2: "\<forall>v\<in>set (children h0 ?x). is_ref v \<longrightarrow> v \<in> dom m2"
    unfolding items_ok_def by blast
  let ?h4 = "finish_fl h2 a ?c ys"
  have res: "deepcopy_fl dc h a m = Some (Inr (FLRef ?c), ?h4, m2)"
  proof -
    from r have "copy_items dc (items_of h0 a) ?h1 ?m1 = Some (Inr ys, h2, m2)" by simp
    with ch none show ?thesis by (simp add: deepcopy_fl_unfold [of m a])
  qed
  have m2x: "m2 ?x = Some (FLRef ?c)"
    using le2 by (auto simp: map_le_def)
  have oc: "objs h2 ! ?c = \<lparr>frozen = False, items = ?l\<rparr>"
    using e2 by (simp add: extends_def alloc_fl_def)
  have len2: "?c < length (objs h2)" "?l < length (lists h2)"
    using e2 by (simp_all add: extends_def alloc_fl_def)
  have oa: "objs h2 ! a = objs h0 ! a"
    using INV_extends [OF inv2] a by (simp add: extends_def)
  have t: "touches h2 (FLRef ?c) ?h4"
    by (rule touches_finish_fl [OF refl])
  have inv4': "INV h0 ?h4 m2 (insert ?x S)"
    by (rule INV_touches [OF inv2 m2x _ t]) simp
  have l4: "lists ?h4 ! ?l = ys"
    using len2 oc
    by (simp add: finish_fl_def Let_def store_list_def freeze_set_frozen lists_set_frozen)
  have f4: "frozen (objs ?h4 ! ?c) = frozen (objs h0 ! a)"
    using len2 oc oa
    by (simp add: finish_fl_def Let_def store_list_def freeze_set_frozen set_frozen_def)
  have i4: "items (objs ?h4 ! ?c) = ?l"
    using t oc by (simp add: touches_def)
  have comp: "complete h0 ?h4 m2 ?x (FLRef ?c)"
    unfolding complete_def using l4 f4 i4 ys d2 by simp
  have inv4: "INV h0 ?h4 m2 S"
    by (rule INV_done [OF inv4' m2x comp])
  have e4: "extends h ?h4"
  proof -
    have "extends h h2" by (rule extends_trans [OF e1 e2])
    moreover have "c < length (lists h) \<Longrightarrow> c \<noteq> cell h2 (FLRef ?c)" for c
      using oc by simp
    moreover have "c < length (objs h) \<Longrightarrow> FLRef c \<noteq> FLRef ?c" for c
      by simp
    ultimately show ?thesis
      using t unfolding extends_def touches_def by metis
  qed
  have le: "m \<subseteq>\<^sub>m m2"
  proof -
    have "m \<subseteq>\<^sub>m ?m1" using none by (simp add: map_le_def dom_def)
    then show ?thesis using le2 by (rule map_le_trans)
  qed
  show ?thesis
  proof (rule copied_okI [OF res e4 le inv4])
    show "FLRef ?c = rename m2 ?x" by (simp add: rename_def m2x)
    show "?x \<in> dom m2" using m2x by blast
  qed
qed

lemma extends_but_refl: "extends_but y h h"
  by (simp add: extends_but_def)

lemma extends_but_step:
  assumes "extends h h1" and "extends_but y (store_list h1 y zs) h'"
  shows "extends_but y h h'"
  using assms unfolding extends_def extends_but_def store_list_def
  by (auto simp: nth_list_update)

lemma touches_store_list: "touches h (ListRef y) (store_list h y zs)"
  by (simp add: touches_def store_list_def)

lemma appended_okI:
  "r = Some (Inr (), h', m') \<Longrightarrow> extends_but y h h' \<Longrightarrow> m \<subseteq>\<^sub>m m' \<Longrightarrow> INV h0 h' m' S
    \<Longrightarrow> lists h' ! y = lists h ! y @ map (rename m') as
    \<Longrightarrow> (\<forall>v\<in>set as. is_ref v \<longrightarrow> v \<in> dom m') \<Longrightarrow> appended_ok h0 S as y h m r"
  unfolding appended_ok_def by blast

lemma append_copies_ok:
  assumes dc: "dc_ok h0 dc n"
  shows "INV h0 h m S \<Longrightarrow> S \<subseteq> dom m \<Longrightarrow> m x = Some (ListRef y) \<Longrightarrow> x \<in> S
    \<Longrightarrow> \<forall>v\<in>set as. valid h0 v \<Longrightarrow> card (nodes h0 - dom m) < n
    \<Longrightarrow> appended_ok h0 S as y h m (append_copies dc as y h m)"
proof (induction as arbitrary: h m)
  case Nil
  then show ?case by (simp add: appended_ok_def extends_but_refl)
next
  case (Cons a as)
  from Cons.prems have "valid h0 a" by simp
  from dc_okD [OF dc Cons.prems(1,2) this Cons.prems(6)]
  obtain v h1 m1 where r1: "dc a h m = Some (Inr v, h1, m1)" and e1: "extends h h1"
    and le1: "m \<subseteq>\<^sub>m m1" and inv1: "INV h0 h1 m1 S" and v: "v = rename m1 a"
    and d1: "is_ref a \<longrightarrow> a \<in> dom m1"
    unfolding copied_ok_def by blast
  let ?h1 = "store_list h1 y (lists h1 ! y @ [v])"
  have m1x: "m1 x = Some (ListRef y)"
    using le1 Cons.prems(3) by (auto simp: map_le_def dom_def)
  have yh: "y < length (lists h)"
    using INV_shape [OF Cons.prems(1,3)] by (cases x) simp_all
  have y1: "lists h1 ! y = lists h ! y" "y < length (lists h1)"
    using e1 yh by (simp_all add: extends_def)
  have inv1': "INV h0 ?h1 m1 S"
    by (rule INV_touches [OF inv1 m1x Cons.prems(4) touches_store_list])
  have S1: "S \<subseteq> dom m1" using Cons.prems(2) map_le_implies_dom_le [OF le1] by blast
  have c1: "card (nodes h0 - dom m1) < n"
    using card_unvisited_mono [OF le1, of h0] Cons.prems(6) by simp
  from Cons.prems(5) have vs: "\<forall>v\<in>set as. valid h0 v" by simp
  from Cons.IH [OF inv1' S1 m1x Cons.prems(4) vs c1]
  obtain h2 m2 where r2: "append_copies dc as y ?h1 m1 = Some (Inr (), h2, m2)"
    and e2: "extends_but y ?h1 h2" and le2: "m1 \<subseteq>\<^sub>m m2" and inv2: "INV h0 h2 m2 S"
    and l2: "lists h2 ! y = lists ?h1 ! y @ map (rename m2) as"
    and d2: "\<forall>v\<in>set as. is_ref v \<longrightarrow> v \<in> dom m2"
    unfolding appended_ok_def by blast
  have "rename m2 a = rename m1 a"
    by (rule rename_stable [OF inv2 le2 d1])
  with v have v2: "v = rename m2 a" by simp
  show ?case
  proof (rule appended_okI)
    show "append_copies dc (a # as) y h m = Some (Inr (), h2, m2)"
      by (simp add: r1 r2)
    show "extends_but y h h2" by (rule extends_but_step [OF e1 e2])
    show "m \<subseteq>\<^sub>m m2" by (rule map_le_trans [OF le1 le2])
    show "INV h0 h2 m2 S" by (rule inv2)
    show "lists h2 ! y = lists h ! y @ map (rename m2) (a # as)"
      using l2 y1 v2 by (simp add: store_list_def)
    show "\<forall>u\<in>set (a # as). is_ref u \<longrightarrow> u \<in> dom m2"
      using d1 d2 map_le_dom [OF le2] by auto
  qed
qed

lemma deepcopy_list_ok:
  assumes dc: "dc_ok h0 dc n" and wf: "wf_heap h0" and inv: "INV h0 h m S" and S: "S \<subseteq> dom m"
    and l: "l < length (lists h0)" and none: "m (ListRef l) = None"
    and card: "card (nodes h0 - dom m) < Suc n"
  shows "copied_ok h0 S (ListRef l) h m (deepcopy_list dc h l m)"
proof -
  let ?x = "ListRef l"
  let ?y = "length (lists h)"
  let ?h1 = "h\<lparr>lists := lists h @ [[]]\<rparr>"
  let ?m1 = "m(?x \<mapsto> ListRef ?y)"
  have e0: "extends h0 h" by (rule INV_extends [OF inv])
  have e1: "extends h ?h1" by (simp add: extends_def nth_append)
  have xv: "valid h0 ?x" using l by simp
  have xn: "?x \<in> nodes h0" using l by (simp add: nodes_iff)
  have xS: "?x \<notin> S" using S none by auto
  have shape: "copy_shape h0 ?h1 ?x (ListRef ?y)"
    using l e0 by (simp add: extends_def)
  have inv1: "INV h0 ?h1 ?m1 (insert ?x S)"
    by (rule INV_register [OF inv none e1 shape]) simp
  have S1: "insert ?x S \<subseteq> dom ?m1" using S by auto
  have ch: "lists ?h1 ! l = children h0 ?x"
    using children_extends [OF wf xv extends_trans [OF e0 e1]] by simp
  have vs: "\<forall>v\<in>set (children h0 ?x). valid h0 v"
    using wf_heap_children [OF wf xv] by blast
  have c1: "card (nodes h0 - dom ?m1) < n"
    using none by (intro card_unvisited_insert [OF xn _ card]) auto
  have "appended_ok h0 (insert ?x S) (children h0 ?x) ?y ?h1 ?m1
      (append_copies dc (children h0 ?x) ?y ?h1 ?m1)"
    by (rule append_copies_ok [OF dc inv1 S1 _ _ vs c1, where x = "?x"]) simp_all
  then obtain h2 m2 where r: "append_copies dc (children h0 ?x) ?y ?h1 ?m1 = Some (Inr (), h2, m2)"
    and e2: "extends_but ?y ?h1 h2" and le2: "?m1 \<subseteq>\<^sub>m m2" and inv2: "INV h0 h2 m2 (insert ?x S)"
    and l2: "lists h2 ! ?y = lists ?h1 ! ?y @ map (rename m2) (children h0 ?x)"
    and d2: "\<forall>v\<in>set (children h0 ?x). is_ref v \<longrightarrow> v \<in> dom m2"
    unfolding appended_ok_def by blast
  have res: "deepcopy_list dc h l m = Some (Inr (ListRef ?y), h2, m2)"
  proof -
    from r have "append_copies dc (lists h0 ! l) ?y ?h1 ?m1 = Some (Inr (), h2, m2)" by simp
    with ch show ?thesis by (simp add: deepcopy_list_def PyList_New_def)
  qed
  have m2x: "m2 ?x = Some (ListRef ?y)"
    using le2 by (auto simp: map_le_def)
  have comp: "complete h0 h2 m2 ?x (ListRef ?y)"
    unfolding complete_def using l2 d2 by simp
  have inv2': "INV h0 h2 m2 S"
    by (rule INV_done [OF inv2 m2x comp])
  have e: "extends h h2"
    using e2 unfolding extends_def extends_but_def by (auto simp: nth_append)
  have le: "m \<subseteq>\<^sub>m m2"
  proof -
    have "m \<subseteq>\<^sub>m ?m1" using none by (simp add: map_le_def dom_def)
    then show ?thesis using le2 by (rule map_le_trans)
  qed
  show ?thesis
  proof (rule copied_okI [OF res e le inv2'])
    show "ListRef ?y = rename m2 ?x" by (simp add: rename_def m2x)
    show "?x \<in> dom m2" using m2x by blast
  qed
qed

lemma deepcopy_ListRef:
  "m (ListRef l) = None \<Longrightarrow>
    deepcopy (Suc n) (ListRef l) h m = memoize (ListRef l) (deepcopy_list (deepcopy n) h l m)"
  by (simp add: memoize_def)

lemma deepcopy_FLRef:
  "m (FLRef a) = None \<Longrightarrow>
    deepcopy (Suc n) (FLRef a) h m = memoize (FLRef a) (deepcopy_fl (deepcopy n) h a m)"
  by (simp add: memoize_def)

lemma memoize_ok:
  assumes ok: "copied_ok h0 S x h m r" and ref: "is_ref x"
  shows "copied_ok h0 S x h m (memoize x r)"
proof -
  from ok obtain y h' m' where r': "r = Some (Inr y, h', m')" and e: "extends h h'"
    and le: "m \<subseteq>\<^sub>m m'" and inv': "INV h0 h' m' S" and y: "y = rename m' x"
    and d: "is_ref x \<longrightarrow> x \<in> dom m'"
    unfolding copied_ok_def by blast
  from d ref y have "m' x = Some y" by (auto simp: rename_def)
  then have "m'(x \<mapsto> y) = m'" by (rule map_upd_triv)
  then have "memoize x r = Some (Inr y, h', m')"
    unfolding r' memoize_def by simp
  then show ?thesis
    using e le inv' y d by (intro copied_okI) auto
qed

lemma deepcopy_ok:
  assumes wf: "wf_heap h0"
  shows "dc_ok h0 (deepcopy n) n"
proof (induction n)
  case 0
  show ?case by (simp add: dc_ok_def)
next
  case (Suc n)
  show ?case
    unfolding dc_ok_def
  proof (intro allI impI)
    fix x h m S
    assume inv: "INV h0 h m S" and S: "S \<subseteq> dom m" and xv: "valid h0 x"
      and card: "card (nodes h0 - dom m) < Suc n"
    show "copied_ok h0 S x h m (deepcopy (Suc n) x h m)"
    proof (cases "m x")
      case (Some y)
      show ?thesis
      proof (rule copied_okI)
        show "deepcopy (Suc n) x h m = Some (Inr y, h, m)" by (simp add: Some)
        show "y = rename m x" by (simp add: rename_def Some)
        show "x \<in> dom m" using Some by blast
      qed (simp_all add: extends_refl inv)
    next
      case None
      show ?thesis
      proof (cases x)
        case PyNone
        show ?thesis
        proof (rule copied_okI)
          show "deepcopy (Suc n) x h m = Some (Inr x, h, m)" using None by (simp add: PyNone)
          show "x = rename m x" by (simp add: rename_def None)
        qed (simp_all add: extends_refl inv PyNone)
      next
        case (PyInt i)
        show ?thesis
        proof (rule copied_okI)
          show "deepcopy (Suc n) x h m = Some (Inr x, h, m)" using None by (simp add: PyInt)
          show "x = rename m x" by (simp add: rename_def None)
        qed (simp_all add: extends_refl inv PyInt)
      next
        case (ListRef l)
        have "copied_ok h0 S (ListRef l) h m (deepcopy_list (deepcopy n) h l m)"
          using xv None ListRef by (intro deepcopy_list_ok [OF Suc wf inv S _ _ card]) simp_all
        then have "copied_ok h0 S (ListRef l) h m (memoize (ListRef l) (deepcopy_list (deepcopy n) h l m))"
          by (rule memoize_ok) simp
        then show ?thesis
          using None by (simp add: ListRef deepcopy_ListRef del: deepcopy.simps)
      next
        case (FLRef a)
        have "copied_ok h0 S (FLRef a) h m (deepcopy_fl (deepcopy n) h a m)"
          using xv None FLRef by (intro deepcopy_fl_ok [OF Suc wf inv S _ _ card]) simp_all
        then have "copied_ok h0 S (FLRef a) h m (memoize (FLRef a) (deepcopy_fl (deepcopy n) h a m))"
          by (rule memoize_ok) simp
        then show ?thesis
          using None by (simp add: FLRef deepcopy_FLRef del: deepcopy.simps)
      qed
    qed
  qed
qed

lemma card_nodes: "card (nodes h) \<le> length (lists h) + length (objs h)"
proof -
  have "card (nodes h) \<le> card (ListRef ` {..<length (lists h)}) + card (FLRef ` {..<length (objs h)})"
    unfolding nodes_def by (rule card_Un_le)
  also have "\<dots> \<le> card {..<length (lists h)} + card {..<length (objs h)}"
    by (intro add_mono card_image_le) simp_all
  finally show ?thesis by simp
qed

lemma INV_empty: "INV h h Map.empty {}"
  by (rule INV_I) (simp_all add: extends_refl)

lemma children_cell: "is_ref v \<Longrightarrow> children h v = lists h ! cell h v"
  by (cases v) (simp_all add: items_of_def)

lemma copy_shape_fresh: "copy_shape h0 h k v \<Longrightarrow> \<not> valid h0 v"
  by (cases k; cases v) auto

lemma INV_copy_of:
  assumes inv: "INV h0 h m {}"
  shows "copy_of h0 h m"
  unfolding copy_of_def
proof (intro conjI allI impI)
  show "inj_on m (dom m)"
  proof (rule inj_onI)
    fix k k' assume "k \<in> dom m" "k' \<in> dom m" "m k = m k'"
    then obtain v where "m k = Some v" "m k' = Some v" by auto
    then show "k = k'" using INV_inj [OF inv] by blast
  qed
next
  fix k v assume mk: "m k = Some v"
  note sh = INV_shape [OF inv mk]
  have c: "complete h0 h m k v" by (rule INV_complete [OF inv mk]) simp
  show "is_ref k" "valid h0 k" "is_ref v" "valid h v"
    using copy_shape_ref [OF sh] by simp_all
  show "\<not> valid h0 v" by (rule copy_shape_fresh [OF sh])
  show "children h v = map (rename m) (children h0 k)"
    using c copy_shape_ref [OF sh] by (simp add: children_cell complete_def)
  show "\<forall>u\<in>set (children h0 k). is_ref u \<longrightarrow> u \<in> dom m"
    using c by (simp add: complete_def)
  show "same_flag h0 h k v"
    using c by (simp add: complete_def)
qed

lemma deepcopy_total:
  assumes wf: "wf_heap h" and v: "valid h x" and n: "length (lists h) + length (objs h) < n"
  shows "\<exists>y h' m. deepcopy n x h Map.empty = Some (Inr y, h', m) \<and> extends h h' \<and> copy_of h h' m
    \<and> y = rename m x \<and> (is_ref x \<longrightarrow> x \<in> dom m)"
proof -
  have "card (nodes h - dom (Map.empty :: memo)) < n"
    using card_nodes [of h] n by simp
  from dc_okD [OF deepcopy_ok [OF wf] INV_empty _ v this]
  have "copied_ok h {} x h Map.empty (deepcopy n x h Map.empty)" by simp
  then show ?thesis
    unfolding copied_ok_def using INV_copy_of by blast
qed

text \<open>
  C4. In a well-formed heap, the deep copy of an instance \<open>x\<close> returns (a depth of
  nested calls above the number of objects of the heap is enough), whether or not \<open>x\<close>
  contains itself, directly or through other lists and instances. It returns a new
  instance \<open>c\<close> and leaves every object of the heap as it was. The flag of \<open>c\<close> is the
  flag of \<open>x\<close>. The items of \<open>c\<close> are the items of \<open>x\<close> with every copied object
  replaced by its copy: where an item of \<open>x\<close> is \<open>x\<close> itself, the item of \<open>c\<close> is
  \<open>c\<close>. Every object that \<open>x\<close> contains, directly or through its items, is copied,
  and where an item of such an object is \<open>x\<close>, the item of its copy is \<open>c\<close>; the copies
  relate to one another as their originals do (\<open>copy_of\<close>), so that a path from \<open>x\<close>
  back to \<open>x\<close> is copied to a path from \<open>c\<close> back to \<open>c\<close>. The method
  \<^verbatim>\<open>__deepcopy__\<close> called with an empty memo gives the same as \<^verbatim>\<open>copy.deepcopy(x)\<close>.
\<close>

theorem deepcopy_keeps_topology:
  assumes "wf_heap h" and "x < length (objs h)" and "length (lists h) + length (objs h) \<le> n"
  shows "\<exists>c h' m.
      deepcopy_top (Suc n) h x = Some (Inr (FLRef c), h', m)
    \<and> deepcopy_fl (deepcopy n) h x Map.empty = Some (Inr (FLRef c), h', m)
    \<and> length (objs h) \<le> c \<and> c < length (objs h')
    \<and> extends h h'
    \<and> m (FLRef x) = Some (FLRef c)
    \<and> frozen (objs h' ! c) = frozen (objs h ! x)
    \<and> items_of h' c = map (rename m) (items_of h x)
    \<and> (\<forall>i<length (items_of h x). items_of h x ! i = FLRef x \<longrightarrow> items_of h' c ! i = FLRef c)
    \<and> contains_trans h (FLRef x) \<subseteq> dom m
    \<and> (\<forall>k v i. m k = Some v \<and> i < length (children h k) \<and> children h k ! i = FLRef x
          \<longrightarrow> children h' v ! i = FLRef c)
    \<and> copy_of h h' m"
proof -
  let ?x = "FLRef x"
  have "card (nodes h - dom (Map.empty :: memo)) < Suc n"
    using card_nodes [of h] assms(3) by simp
  from deepcopy_fl_ok [OF deepcopy_ok [OF assms(1)] assms(1) INV_empty _ assms(2) _ this]
  have "copied_ok h {} ?x h Map.empty (deepcopy_fl (deepcopy n) h x Map.empty)" by simp
  then obtain y h' m where r: "deepcopy_fl (deepcopy n) h x Map.empty = Some (Inr y, h', m)"
    and e: "extends h h'" and inv: "INV h h' m {}" and y: "y = rename m ?x" and d: "?x \<in> dom m"
    unfolding copied_ok_def by auto
  have co: "copy_of h h' m" by (rule INV_copy_of [OF inv])
  from d obtain y' where my: "m ?x = Some y'" by blast
  with y have my': "m ?x = Some y" by (simp add: rename_def)
  from co my' have props: "is_ref y" "\<not> valid h y" "valid h' y"
    "children h' y = map (rename m) (children h ?x)" "same_flag h h' ?x y"
    unfolding copy_of_def by blast+
  from props(5) obtain c where yc: "y = FLRef c"
    by (cases y) simp_all
  have meth: "deepcopy_fl (deepcopy n) h x Map.empty = Some (Inr (FLRef c), h', m)"
    using r yc by simp
  have "m(?x \<mapsto> FLRef c) = m"
    using my' yc by (simp add: map_upd_triv)
  then have top: "deepcopy_top (Suc n) h x = Some (Inr (FLRef c), h', m)"
    by (simp add: deepcopy_top_def meth)
  have its: "items_of h' c = map (rename m) (items_of h x)"
    using props(4) yc by simp
  have slot: "items_of h' c ! i = FLRef c" if "i < length (items_of h x)" "items_of h x ! i = FLRef x" for i
    using that its my' yc by (simp add: rename_def)
  have closed: "contains_trans h ?x \<subseteq> dom m"
  proof
    fix k assume "k \<in> contains_trans h ?x"
    then show "k \<in> dom m"
    proof (induction rule: contains_trans.induct)
      case self
      show ?case by (rule d)
    next
      case (item k u)
      then obtain v where "m k = Some v" by blast
      with co item.hyps(2,3) show ?case unfolding copy_of_def by blast
    qed
  qed
  have backref: "children h' v ! i = FLRef c"
    if "m k = Some v" "i < length (children h k)" "children h k ! i = FLRef x" for k v i
  proof -
    from co that(1) have "children h' v = map (rename m) (children h k)"
      unfolding copy_of_def by blast
    with that(2,3) my' yc show ?thesis by (simp add: rename_def)
  qed
  from props yc have "length (objs h) \<le> c" "c < length (objs h')" "frozen (objs h' ! c) = frozen (objs h ! x)"
    by simp_all
  with top meth e my' yc its slot closed backref co show ?thesis by blast
qed

lemma mutual_run:
  "map_option (\<lambda>(r, h', m). (r, h', m (FLRef 0), m (FLRef 1))) (deepcopy_top 5 mutual 0)
    = Some (Inr (FLRef 2), mutual_copy, Some (FLRef 2), Some (FLRef 3))"
  by (simp add: deepcopy_top_def deepcopy_fl_def PyList_New_def init_def PySequence_List_def
      elements_def items_of_def store_list_def freeze_def mutual_def mutual_copy_def Let_def
      eval_nat_numeral)

theorem deepcopy_keeps_topology_witness:
  "wf_heap mutual \<and> 0 < length (objs mutual)
   \<and> length (lists mutual) + length (objs mutual) \<le> 4
   \<and> items_of mutual 0 = [PyInt 7, FLRef 1] \<and> items_of mutual 1 = [FLRef 0]
   \<and> map_option (\<lambda>(r, h', m). (r, h', m (FLRef 0), m (FLRef 1))) (deepcopy_top 5 mutual 0)
       = Some (Inr (FLRef 2), mutual_copy, Some (FLRef 2), Some (FLRef 3))
   \<and> frozen (objs mutual_copy ! 2) = frozen (objs mutual ! 0)
   \<and> items_of mutual_copy 2 = [PyInt 7, FLRef 3] \<and> items_of mutual_copy 3 = [FLRef 2]"
proof -
  have w: "wf_heap mutual" by (simp add: wf_heap_def mutual_def)
  have x: "0 < length (objs mutual)" by (simp add: mutual_def)
  have n: "length (lists mutual) + length (objs mutual) \<le> 4" by (simp add: mutual_def)
  have i: "items_of mutual 0 = [PyInt 7, FLRef 1]" "items_of mutual 1 = [FLRef 0]"
    by (simp_all add: mutual_def items_of_def)
  from deepcopy_keeps_topology [OF w x n]
  obtain c h' m where r: "deepcopy_top (Suc 4) mutual 0 = Some (Inr (FLRef c), h', m)"
    and f: "frozen (objs h' ! c) = frozen (objs mutual ! 0)"
    and its: "items_of h' c = map (rename m) (items_of mutual 0)"
    and co: "copy_of mutual h' m"
    by blast
  have five: "Suc 4 = 5" by simp
  from r mutual_run have c: "c = 2" and h': "h' = mutual_copy" and m: "m (FLRef 0) = Some (FLRef 2)" "m (FLRef 1) = Some (FLRef 3)"
    unfolding five by simp_all
  from co m(2) have "children h' (FLRef 3) = map (rename m) (children mutual (FLRef 1))"
    unfolding copy_of_def by blast
  with i m h' have i3: "items_of mutual_copy 3 = [FLRef 2]"
    by (simp add: rename_def)
  have a: "m (PyInt 7) = None"
  proof (cases "m (PyInt 7)")
    case (Some v)
    with co have "is_ref (PyInt 7)" unfolding copy_of_def by blast
    then show ?thesis by simp
  qed simp
  from its i m c h' a have i2: "items_of mutual_copy 2 = [PyInt 7, FLRef 3]"
    by (simp add: rename_def)
  from f c h' have f2: "frozen (objs mutual_copy ! 2) = frozen (objs mutual ! 0)" by simp
  from w x n i mutual_run f2 i2 i3 show ?thesis by blast
qed


section \<open>A deep copy leaves the heap it was given as it was\<close>










section \<open>Freezing is final\<close>




















end
